theory Spec2Isabelle
  imports Complex_Main
begin

section \<open>Data model\<close>

text \<open>
  The analytics functions of \<^verbatim>\<open>src/utils/analysis_utils.py\<close> work on the dataclass
  \<^verbatim>\<open>Expense\<close> of \<^verbatim>\<open>src/database/models.py\<close>. Amounts are Python floats; the
  properties below are statements of exact arithmetic, so an amount is a \<^typ>\<open>real\<close>.
  The category and the amount are present on every record that reaches the analytics
  functions (NOT NULL in the table schema); the date may be \<^verbatim>\<open>None\<close>, which the
  source tests for. The field \<^verbatim>\<open>created_at\<close> is not read by these functions and is
  left out.
\<close>

record date =
  year :: int
  month :: int
  day :: int

record expense =
  expense_id :: "int option"
  date :: "date option"
  category :: string
  description :: string
  amount :: real
  merchant :: "string option"

text \<open>
  Exceptions are values. Every exception that \<^verbatim>\<open>parse_date\<close> and the calendar
  arithmetic can raise is a \<^verbatim>\<open>ValueError\<close> or an \<^verbatim>\<open>OverflowError\<close> of Python;
  the constructors keep apart where it was raised and what it carries:
  \<^item> \<open>DateIsNone\<close> and \<open>EmptyDateString\<close>: the two \<^verbatim>\<open>ValueError\<close>s raised at the top of
    \<^verbatim>\<open>parse_date\<close>;
  \<^item> \<open>InvalidIsoformat s\<close>: the \<^verbatim>\<open>ValueError\<close> of \<^verbatim>\<open>date.fromisoformat(s)\<close> or
    \<^verbatim>\<open>datetime.fromisoformat(s)\<close>, whose message quotes the argument \<open>s\<close>;
  \<^item> \<open>CannotParseDate s e\<close>: the \<^verbatim>\<open>ValueError\<close> raised by the last line of
    \<^verbatim>\<open>parse_date\<close>, whose message is formatted from \<^verbatim>\<open>date_str\<close> and \<^verbatim>\<open>str(e)\<close>;
  \<^item> \<open>ValueError msg\<close>: any other \<^verbatim>\<open>ValueError\<close> of the library, with its message.
\<close>

datatype error =
    ValueError string
  | OverflowError string
  | DateIsNone
  | EmptyDateString
  | InvalidIsoformat string
  | CannotParseDate string error

definition bind_result :: "error + 'a \<Rightarrow> ('a \<Rightarrow> error + 'b) \<Rightarrow> error + 'b" where
  "bind_result r f = (case r of Inl e \<Rightarrow> Inl e | Inr v \<Rightarrow> f v)"

section \<open>Library functions used by the source\<close>

text \<open>
  \<^verbatim>\<open>np.mean\<close>, \<^verbatim>\<open>np.std\<close> (population standard deviation, \<^verbatim>\<open>ddof = 0\<close>) and
  \<^verbatim>\<open>np.median\<close> of numpy, in exact arithmetic (the rounded versions are
  parameters of the second model below). Python's \<^verbatim>\<open>min\<close> and \<^verbatim>\<open>max\<close>
  raise \<^verbatim>\<open>ValueError\<close> on an empty sequence.
\<close>

definition np_mean :: "real list \<Rightarrow> real" where
  "np_mean xs = sum_list xs / real (length xs)"

definition np_std :: "real list \<Rightarrow> real" where
  "np_std xs = sqrt (np_mean (map (\<lambda>x. \<bar>x - np_mean xs\<bar> ^ 2) xs))"

definition np_median :: "real list \<Rightarrow> real" where
  "np_median xs =
     (let s = sort xs; n = length xs
      in if odd n then s ! (n div 2) else (s ! (n div 2 - 1) + s ! (n div 2)) / 2)"

fun py_min :: "real list \<Rightarrow> error + real" where
  "py_min [] = Inl (ValueError ''min() arg is an empty sequence'')"
| "py_min (x # xs) = Inr (fold min xs x)"

fun py_max :: "real list \<Rightarrow> error + real" where
  "py_max [] = Inl (ValueError ''max() arg is an empty sequence'')"
| "py_max (x # xs) = Inr (fold max xs x)"

section \<open>calculate_category_stats\<close>

record category_stat =
  stat_total :: real
  stat_count :: nat
  stat_mean :: real
  stat_median :: real
  stat_min :: real
  stat_max :: real
  stat_std :: real

text \<open>
  \<^verbatim>\<open>category_data[expense.category].append(expense.amount)\<close> on a
  \<^verbatim>\<open>defaultdict(list)\<close>: a dictionary keeps its keys in the order of first insertion,
  so it is an association list.
\<close>

fun append_amount :: "string \<Rightarrow> real \<Rightarrow> (string \<times> real list) list \<Rightarrow> (string \<times> real list) list" where
  "append_amount c a [] = [(c, [a])]"
| "append_amount c a ((k, v) # kvs) =
     (if k = c then (k, v @ [a]) # kvs else (k, v) # append_amount c a kvs)"

definition category_data :: "expense list \<Rightarrow> (string \<times> real list) list" where
  "category_data expenses =
     foldl (\<lambda>d expense. append_amount (category expense) (amount expense) d) [] expenses"

abbreviation (input) group_step :: "(string \<times> real list) list \<Rightarrow> expense \<Rightarrow> (string \<times> real list) list" where
  "group_step \<equiv> (\<lambda>d expense. append_amount (category expense) (amount expense) d)"

text \<open>The dictionary literal of one category; its entries are evaluated in order.\<close>

definition stats_entry :: "real list \<Rightarrow> error + category_stat" where
  "stats_entry amounts =
     (case py_min amounts of
        Inl e \<Rightarrow> Inl e
      | Inr mn \<Rightarrow>
         (case py_max amounts of
            Inl e \<Rightarrow> Inl e
          | Inr mx \<Rightarrow>
             Inr \<lparr> stat_total = sum_list amounts,
                   stat_count = length amounts,
                   stat_mean = np_mean amounts,
                   stat_median = np_median amounts,
                   stat_min = mn,
                   stat_max = mx,
                   stat_std = (if length amounts > 1 then np_std amounts else 0) \<rparr>))"

fun stats_loop :: "(string \<times> real list) list \<Rightarrow> error + (string \<times> category_stat) list" where
  "stats_loop [] = Inr []"
| "stats_loop ((c, amounts) # rest) =
     (case stats_entry amounts of
        Inl e \<Rightarrow> Inl e
      | Inr s \<Rightarrow>
         (case stats_loop rest of
            Inl e \<Rightarrow> Inl e
          | Inr stats \<Rightarrow> Inr ((c, s) # stats)))"

definition calculate_category_stats :: "expense list \<Rightarrow> error + (string \<times> category_stat) list" where
  "calculate_category_stats expenses =
     (if expenses = [] then Inr [] else stats_loop (category_data expenses))"

section \<open>detect_outliers\<close>

record outlier =
  outlier_id :: "int option"
  outlier_date :: "date option"
  outlier_category :: string
  outlier_description :: string
  outlier_amount :: real
  outlier_threshold :: real
  outlier_mean :: real
  outlier_std :: real

text \<open>
  The outlier dictionary stores \<^verbatim>\<open>expense.date.isoformat()\<close>; the model keeps the
  date itself, of which the ISO string is an injective rendering.
\<close>

fun outliers_loop :: "(string \<times> category_stat) list \<Rightarrow> expense list \<Rightarrow> outlier list" where
  "outliers_loop category_stats [] = []"
| "outliers_loop category_stats (expense # rest) =
     (case map_of category_stats (category expense) of
        None \<Rightarrow> outliers_loop category_stats rest
      | Some stats \<Rightarrow>
         (let threshold = stat_mean stats + 2 * stat_std stats
          in if amount expense > threshold
             then \<lparr> outlier_id = expense_id expense,
                    outlier_date = date expense,
                    outlier_category = category expense,
                    outlier_description = description expense,
                    outlier_amount = amount expense,
                    outlier_threshold = threshold,
                    outlier_mean = stat_mean stats,
                    outlier_std = stat_std stats \<rparr> # outliers_loop category_stats rest
             else outliers_loop category_stats rest))"

definition detect_outliers :: "expense list \<Rightarrow> error + outlier list" where
  "detect_outliers expenses =
     (if expenses = [] then Inr []
      else (case calculate_category_stats expenses of
              Inl e \<Rightarrow> Inl e
            | Inr category_stats \<Rightarrow> Inr (outliers_loop category_stats expenses)))"


section \<open>Calendar dates\<close>

text \<open>
  \<^verbatim>\<open>datetime.date\<close> of the standard library: the constructor checks the year
  (1 to 9999), the month and the day; adding or subtracting a \<^verbatim>\<open>timedelta\<close> of whole
  days walks the proleptic Gregorian calendar and raises \<^verbatim>\<open>OverflowError\<close> when it
  leaves the supported years; dates compare as (year, month, day) triples.
\<close>

definition is_leap :: "int \<Rightarrow> bool" where
  "is_leap y = (y mod 4 = 0 \<and> (y mod 100 \<noteq> 0 \<or> y mod 400 = 0))"

definition days_in_month :: "int \<Rightarrow> int \<Rightarrow> int" where
  "days_in_month y m =
     (if m = 2 then (if is_leap y then 29 else 28)
      else if m = 4 \<or> m = 6 \<or> m = 9 \<or> m = 11 then 30
      else 31)"

definition valid_date :: "date \<Rightarrow> bool" where
  "valid_date d =
     (1 \<le> year d \<and> year d \<le> 9999 \<and> 1 \<le> month d \<and> month d \<le> 12
      \<and> 1 \<le> day d \<and> day d \<le> days_in_month (year d) (month d))"

definition mk_date :: "int \<Rightarrow> int \<Rightarrow> int \<Rightarrow> error + date" where
  "mk_date y m d =
     (if y < 1 \<or> 9999 < y then Inl (ValueError ''year is out of range'')
      else if m < 1 \<or> 12 < m then Inl (ValueError ''month must be in 1..12'')
      else if d < 1 \<or> days_in_month y m < d then Inl (ValueError ''day is out of range for month'')
      else Inr \<lparr> year = y, month = m, day = d \<rparr>)"

definition next_day :: "date \<Rightarrow> date" where
  "next_day d =
     (if day d < days_in_month (year d) (month d) then d\<lparr> day := day d + 1 \<rparr>
      else if month d < 12 then \<lparr> year = year d, month = month d + 1, day = 1 \<rparr>
      else \<lparr> year = year d + 1, month = 1, day = 1 \<rparr>)"

definition prev_day :: "date \<Rightarrow> date" where
  "prev_day d =
     (if 1 < day d then d\<lparr> day := day d - 1 \<rparr>
      else if 1 < month d
        then \<lparr> year = year d, month = month d - 1, day = days_in_month (year d) (month d - 1) \<rparr>
      else \<lparr> year = year d - 1, month = 12, day = 31 \<rparr>)"

definition date_add_days :: "date \<Rightarrow> nat \<Rightarrow> error + date" where
  "date_add_days d n =
     (let r = (next_day ^^ n) d
      in if 9999 < year r then Inl (OverflowError ''date value out of range'') else Inr r)"

definition date_sub_days :: "date \<Rightarrow> nat \<Rightarrow> error + date" where
  "date_sub_days d n =
     (let r = (prev_day ^^ n) d
      in if year r < 1 then Inl (OverflowError ''date value out of range'') else Inr r)"

definition date_le :: "date \<Rightarrow> date \<Rightarrow> bool" where
  "date_le a b =
     (year a < year b
      \<or> (year a = year b \<and> (month a < month b \<or> (month a = month b \<and> day a \<le> day b))))"

section \<open>parse_date\<close>

text \<open>
  The argument of \<^verbatim>\<open>parse_date\<close> is a \<^verbatim>\<open>date\<close>, \<^verbatim>\<open>None\<close> or a string.
\<close>

datatype date_input = DateValue date | NoneValue | StrValue string

text \<open>
  String methods of Python on ASCII text: \<^verbatim>\<open>strip()\<close> removes leading and trailing
  white space, \<^verbatim>\<open>s.split(sep)[0]\<close> is the text before the first separator, and
  \<^verbatim>\<open>replace('Z', '+00:00')\<close> rewrites every Z.
\<close>

definition is_space :: "char \<Rightarrow> bool" where
  "is_space c =
     (c \<in> set [CHR '' '', CHR 0x09, CHR 0x0A, CHR 0x0B, CHR 0x0C, CHR 0x0D,
               CHR 0x1C, CHR 0x1D, CHR 0x1E, CHR 0x1F])"

definition py_strip :: "string \<Rightarrow> string" where
  "py_strip s = rev (dropWhile is_space (rev (dropWhile is_space s)))"

definition split_head :: "char \<Rightarrow> string \<Rightarrow> string" where
  "split_head sep s = takeWhile (\<lambda>c. c \<noteq> sep) s"

definition replace_Z :: "string \<Rightarrow> string" where
  "replace_Z s = concat (map (\<lambda>c. if c = CHR ''Z'' then ''+00:00'' else [c]) s)"

text \<open>
  \<^verbatim>\<open>date.fromisoformat\<close> in its documented format \<^verbatim>\<open>YYYY-MM-DD\<close>: ten characters,
  digits around two hyphens, then the checks of the \<^verbatim>\<open>date\<close> constructor. Every
  failure is a \<^verbatim>\<open>ValueError\<close>. \<^verbatim>\<open>date.isoformat\<close> prints the same format.
\<close>

definition digit_value :: "char \<Rightarrow> int option" where
  "digit_value c =
     map_of [(CHR ''0'', 0), (CHR ''1'', 1), (CHR ''2'', 2), (CHR ''3'', 3), (CHR ''4'', 4),
             (CHR ''5'', 5), (CHR ''6'', 6), (CHR ''7'', 7), (CHR ''8'', 8), (CHR ''9'', 9)] c"

fun digits_value :: "string \<Rightarrow> int \<Rightarrow> int option" where
  "digits_value [] acc = Some acc"
| "digits_value (c # cs) acc =
     (case digit_value c of None \<Rightarrow> None | Some v \<Rightarrow> digits_value cs (acc * 10 + v))"

definition date_fromisoformat :: "string \<Rightarrow> error + date" where
  "date_fromisoformat s =
     (if length s = 10 \<and> s ! 4 = CHR ''-'' \<and> s ! 7 = CHR ''-''
      then (case (digits_value (take 4 s) 0, digits_value (take 2 (drop 5 s)) 0,
                  digits_value (drop 8 s) 0) of
              (Some y, Some m, Some d) \<Rightarrow> mk_date y m d
            | _ \<Rightarrow> Inl (InvalidIsoformat s))
      else Inl (InvalidIsoformat s))"

definition digit_char :: "int \<Rightarrow> char" where
  "digit_char n = ''0123456789'' ! nat n"

definition isoformat :: "date \<Rightarrow> string" where
  "isoformat d =
     [digit_char (year d div 1000), digit_char (year d div 100 mod 10),
      digit_char (year d div 10 mod 10), digit_char (year d mod 10), CHR ''-'',
      digit_char (month d div 10), digit_char (month d mod 10), CHR ''-'',
      digit_char (day d div 10), digit_char (day d mod 10)]"

text \<open>
  \<^verbatim>\<open>datetime.fromisoformat\<close>, followed by \<^verbatim>\<open>.date()\<close>, is a parameter of the model:
  the statements below hold whatever strings it accepts. In each \<^verbatim>\<open>try\<close> the
  handler catches \<^verbatim>\<open>ValueError\<close>, which is every error these parsers raise; the last
  call of the first two branches is outside any \<^verbatim>\<open>try\<close>, so its error reaches the
  caller as it is.
\<close>

definition parse_date :: "(string \<Rightarrow> error + date) \<Rightarrow> date_input \<Rightarrow> error + date" where
  "parse_date datetime_fromisoformat inp =
     (case inp of
        DateValue d \<Rightarrow> Inr d
      | NoneValue \<Rightarrow> Inl DateIsNone
      | StrValue raw \<Rightarrow>
          let date_str = py_strip raw
          in if date_str = [] then Inl EmptyDateString
             else if CHR ''T'' \<in> set date_str then
               (let date_part = split_head CHR ''T'' date_str
                in case date_fromisoformat date_part of
                     Inr d \<Rightarrow> Inr d
                   | Inl e1 \<Rightarrow>
                       (case datetime_fromisoformat (replace_Z date_str) of
                          Inr d \<Rightarrow> Inr d
                        | Inl e2 \<Rightarrow> date_fromisoformat (py_strip date_part)))
             else if CHR '' '' \<in> set date_str then
               (let date_part = split_head CHR '' '' date_str
                in case date_fromisoformat date_part of
                     Inr d \<Rightarrow> Inr d
                   | Inl e1 \<Rightarrow>
                       (case datetime_fromisoformat date_str of
                          Inr d \<Rightarrow> Inr d
                        | Inl e2 \<Rightarrow> date_fromisoformat (py_strip date_part)))
             else
               (case date_fromisoformat date_str of
                  Inr d \<Rightarrow> Inr d
                | Inl e \<Rightarrow> Inl (CannotParseDate date_str e)))"

section \<open>calculate_mom_growth\<close>

text \<open>
  The result maps a category to a float, which is \<^verbatim>\<open>float('inf')\<close> for a category
  that is new in the current month.
\<close>

datatype growth = PosInf | Percent real

text \<open>\<^verbatim>\<open>d[category] += amount\<close> on a \<^verbatim>\<open>defaultdict(float)\<close>.\<close>

fun add_amount :: "string \<Rightarrow> real \<Rightarrow> (string \<times> real) list \<Rightarrow> (string \<times> real) list" where
  "add_amount c a [] = [(c, 0 + a)]"
| "add_amount c a ((k, v) # kvs) =
     (if k = c then (k, v + a) # kvs else (k, v) # add_amount c a kvs)"

text \<open>\<^verbatim>\<open>d.get(category, 0)\<close>.\<close>

definition get_or_zero :: "(string \<times> real) list \<Rightarrow> string \<Rightarrow> real" where
  "get_or_zero d c = (case map_of d c of None \<Rightarrow> 0 | Some v \<Rightarrow> v)"

text \<open>
  The four bounds \<^verbatim>\<open>prev_start\<close>, \<^verbatim>\<open>prev_end\<close>, \<^verbatim>\<open>current_start\<close> and
  \<^verbatim>\<open>current_end\<close>, computed in the order of the source.
\<close>

definition month_bounds :: "date \<Rightarrow> error + (date \<times> date \<times> date \<times> date)" where
  "month_bounds current_month =
     bind_result (mk_date (year current_month) (month current_month) 1) (\<lambda>current_start.
     bind_result
       (if month current_month = 1
        then bind_result (mk_date (year current_month - 1) 12 1) (\<lambda>prev_start.
             bind_result (mk_date (year current_month - 1) 12 31) (\<lambda>prev_end.
             Inr (prev_start, prev_end)))
        else bind_result (mk_date (year current_month) (month current_month - 1) 1) (\<lambda>prev_start.
             bind_result (mk_date (year current_month) (month current_month) 1) (\<lambda>first.
             bind_result (date_sub_days first 1) (\<lambda>prev_end.
             Inr (prev_start, prev_end)))))
       (\<lambda>(prev_start, prev_end).
     bind_result (date_add_days current_start 32) (\<lambda>current_end.
     bind_result (mk_date (year current_end) (month current_end) 1) (\<lambda>first.
     bind_result (date_sub_days first 1) (\<lambda>current_end.
     Inr (prev_start, prev_end, current_start, current_end))))))"

text \<open>The loop over the expenses; the state is the pair of the two dictionaries.\<close>

fun bucket_loop ::
  "date \<times> date \<times> date \<times> date \<Rightarrow> expense list
   \<Rightarrow> (string \<times> real) list \<times> (string \<times> real) list
   \<Rightarrow> (string \<times> real) list \<times> (string \<times> real) list" where
  "bucket_loop bounds [] (current_month_data, prev_month_data) =
     (current_month_data, prev_month_data)"
| "bucket_loop (prev_start, prev_end, current_start, current_end) (expense # rest)
       (current_month_data, prev_month_data) =
     (case date expense of
        None \<Rightarrow>
          bucket_loop (prev_start, prev_end, current_start, current_end) rest
            (current_month_data, prev_month_data)
      | Some exp_date \<Rightarrow>
          if date_le prev_start exp_date \<and> date_le exp_date prev_end
          then bucket_loop (prev_start, prev_end, current_start, current_end) rest
                 (current_month_data, add_amount (category expense) (amount expense) prev_month_data)
          else if date_le current_start exp_date \<and> date_le exp_date current_end
          then bucket_loop (prev_start, prev_end, current_start, current_end) rest
                 (add_amount (category expense) (amount expense) current_month_data, prev_month_data)
          else bucket_loop (prev_start, prev_end, current_start, current_end) rest
                 (current_month_data, prev_month_data))"

definition growth_entry :: "(string \<times> real) list \<Rightarrow> (string \<times> real) list \<Rightarrow> string \<Rightarrow> growth" where
  "growth_entry prev_month_data current_month_data category' =
     (let prev_total = get_or_zero prev_month_data category';
          current_total = get_or_zero current_month_data category'
      in if prev_total = 0
         then (if current_total > 0 then PosInf else Percent 0)
         else Percent (((current_total - prev_total) / prev_total) * 100))"

text \<open>
  \<^verbatim>\<open>date.today()\<close> is the parameter \<open>today\<close>. The categories are visited in the
  order of a Python set, which is not specified; the result is a dictionary, and every
  statement below reads it by key.
\<close>

definition calculate_mom_growth ::
  "date \<Rightarrow> expense list \<Rightarrow> date option \<Rightarrow> error + (string \<times> growth) list" where
  "calculate_mom_growth today expenses current_month =
     (if expenses = [] then Inr []
      else
        let current_month = (case current_month of None \<Rightarrow> today | Some d \<Rightarrow> d)
        in bind_result (month_bounds current_month) (\<lambda>bounds.
             let (current_month_data, prev_month_data) = bucket_loop bounds expenses ([], []);
                 all_categories = remdups (map fst current_month_data @ map fst prev_month_data)
             in Inr (map (\<lambda>c. (c, growth_entry prev_month_data current_month_data c))
                       all_categories)))"

section \<open>predict_monthly_expense\<close>

type_synonym month_key = "int \<times> int"

text \<open>
  \<^verbatim>\<open>monthly_data[month_key][expense.category] += expense.amount\<close> on a
  \<^verbatim>\<open>defaultdict\<close> of \<^verbatim>\<open>defaultdict(float)\<close>.
\<close>

fun add_monthly ::
  "month_key \<Rightarrow> string \<Rightarrow> real \<Rightarrow> (month_key \<times> (string \<times> real) list) list
   \<Rightarrow> (month_key \<times> (string \<times> real) list) list" where
  "add_monthly k c a [] = [(k, add_amount c a [])]"
| "add_monthly k c a ((k', month_data) # rest) =
     (if k' = k then (k', add_amount c a month_data) # rest
      else (k', month_data) # add_monthly k c a rest)"

definition monthly_step ::
  "(month_key \<times> (string \<times> real) list) list \<Rightarrow> expense
   \<Rightarrow> (month_key \<times> (string \<times> real) list) list" where
  "monthly_step monthly_data expense =
     (case date expense of
        None \<Rightarrow> monthly_data
      | Some d \<Rightarrow> add_monthly (year d, month d) (category expense) (amount expense) monthly_data)"

definition monthly_data_of :: "expense list \<Rightarrow> (month_key \<times> (string \<times> real) list) list" where
  "monthly_data_of expenses = foldl monthly_step [] expenses"

text \<open>Tuples compare lexicographically; \<^verbatim>\<open>min\<close> keeps the first smallest element.\<close>

definition key_less :: "month_key \<Rightarrow> month_key \<Rightarrow> bool" where
  "key_less a b = (fst a < fst b \<or> (fst a = fst b \<and> snd a < snd b))"

fun min_key :: "month_key list \<Rightarrow> error + month_key" where
  "min_key [] = Inl (ValueError ''min() arg is an empty sequence'')"
| "min_key (k # ks) = Inr (fold (\<lambda>x m. if key_less x m then x else m) ks k)"

definition months_since_start :: "month_key \<Rightarrow> month_key \<Rightarrow> int" where
  "months_since_start start k = (fst k - fst start) * 12 + (snd k - snd start)"

text \<open>
  \<^verbatim>\<open>LinearRegression\<close> of scikit-learn with one predictor, in exact arithmetic: the
  fit centres the data and solves the least-squares problem, taking the solution of
  least norm (slope 0) when all predictor values coincide; it rejects an empty sample.
\<close>

definition linear_regression_fit :: "real list \<Rightarrow> real list \<Rightarrow> error + (real \<times> real)" where
  "linear_regression_fit X y =
     (if X = [] then Inl (ValueError ''Found array with 0 sample(s)'')
      else if length X \<noteq> length y
        then Inl (ValueError ''Found input variables with inconsistent numbers of samples'')
      else
        let x_mean = np_mean X;
            y_mean = np_mean y;
            sxx = (\<Sum>x\<leftarrow>X. (x - x_mean) ^ 2);
            sxy = (\<Sum>(x, v)\<leftarrow>zip X y. (x - x_mean) * (v - y_mean));
            coef = (if sxx = 0 then 0 else sxy / sxx)
        in Inr (coef, y_mean - coef * x_mean))"

definition linear_regression_predict :: "real \<times> real \<Rightarrow> real \<Rightarrow> real" where
  "linear_regression_predict model x = snd model + fst model * x"

text \<open>The pairs (X, y) collected for one category, in the order of the months.\<close>

definition category_points ::
  "month_key \<Rightarrow> (month_key \<times> (string \<times> real) list) list \<Rightarrow> string \<Rightarrow> (real \<times> real) list" where
  "category_points start monthly_data c =
     List.map_filter
       (\<lambda>(k, month_data).
          case map_of month_data c of
            None \<Rightarrow> None
          | Some v \<Rightarrow> Some (real_of_int (months_since_start start k), v))
       monthly_data"

text \<open>
  The body of the loop over the categories: \<open>None\<close> when it writes no prediction.
\<close>

definition predict_category ::
  "month_key \<Rightarrow> date \<Rightarrow> (month_key \<times> (string \<times> real) list) list \<Rightarrow> string \<Rightarrow> real option" where
  "predict_category start target_month monthly_data c =
     (let X = map fst (category_points start monthly_data c);
          y = map snd (category_points start monthly_data c)
      in if length X < 2
         then (if length y > 0 then Some (np_mean y) else None)
         else
           (case linear_regression_fit X y of
              Inr model \<Rightarrow>
                let target_months = months_since_start start (year target_month, month target_month);
                    prediction = linear_regression_predict model (real_of_int target_months)
                in Some (max 0 prediction)
            | Inl e \<Rightarrow> Some (if length y > 0 then np_mean y else 0)))"

definition predict_monthly_expense ::
  "date \<Rightarrow> expense list \<Rightarrow> date option \<Rightarrow> error + (string \<times> real) list" where
  "predict_monthly_expense today expenses target_month =
     (if expenses = [] then Inr []
      else
        let target_month = (case target_month of None \<Rightarrow> today | Some d \<Rightarrow> d);
            monthly_data = monthly_data_of expenses
        in if monthly_data = [] then Inr []
           else
             let all_categories = remdups (concat (map (\<lambda>(k, month_data). map fst month_data) monthly_data))
             in bind_result (min_key (map fst monthly_data)) (\<lambda>start.
                  Inr (List.map_filter
                         (\<lambda>c. map_option (Pair c) (predict_category start target_month monthly_data c))
                         all_categories)))"

section \<open>The source with the arithmetic of the libraries as parameters\<close>

text \<open>
  The functions above compute in exact arithmetic. The source computes in IEEE doubles:
  every sum, mean, standard deviation and regression is rounded, and a comparison
  against a computed threshold can go either way at the boundary. Where a statement
  depends on that, the source is modelled with the arithmetic of Python and of its
  libraries as parameters: the float addition and multiplication, \<^verbatim>\<open>np.mean\<close>,
  \<^verbatim>\<open>np.median\<close>, \<^verbatim>\<open>np.std\<close>, and \<^verbatim>\<open>LinearRegression\<close> as one function from
  the samples and the query point to the prediction or the exception of the fit. A
  finite double is a real number; infinities and NaN are outside the model.
\<close>

record numerics =
  fl_add :: "real \<Rightarrow> real \<Rightarrow> real"
  fl_mul :: "real \<Rightarrow> real \<Rightarrow> real"
  lib_mean :: "real list \<Rightarrow> real"
  lib_median :: "real list \<Rightarrow> real"
  lib_std :: "real list \<Rightarrow> real"
  lib_regress :: "real list \<Rightarrow> real list \<Rightarrow> real \<Rightarrow> error + real"

text \<open>
  \<^verbatim>\<open>sum(amounts)\<close>, and likewise repeated \<^verbatim>\<open>+=\<close> from \<^verbatim>\<open>0.0\<close>: added from left to
  right, each addition rounded.
\<close>

definition float_sum :: "numerics \<Rightarrow> real list \<Rightarrow> real" where
  "float_sum N xs = foldl (fl_add N) 0 xs"

text \<open>\<^verbatim>\<open>calculate_category_stats\<close> and \<^verbatim>\<open>detect_outliers\<close> once more.\<close>

definition stats_entry_with :: "numerics \<Rightarrow> real list \<Rightarrow> error + category_stat" where
  "stats_entry_with N amounts =
     (case py_min amounts of
        Inl e \<Rightarrow> Inl e
      | Inr mn \<Rightarrow>
         (case py_max amounts of
            Inl e \<Rightarrow> Inl e
          | Inr mx \<Rightarrow>
             Inr \<lparr> stat_total = float_sum N amounts,
                   stat_count = length amounts,
                   stat_mean = lib_mean N amounts,
                   stat_median = lib_median N amounts,
                   stat_min = mn,
                   stat_max = mx,
                   stat_std = (if length amounts > 1 then lib_std N amounts else 0) \<rparr>))"

fun stats_loop_with ::
  "numerics \<Rightarrow> (string \<times> real list) list \<Rightarrow> error + (string \<times> category_stat) list" where
  "stats_loop_with N [] = Inr []"
| "stats_loop_with N ((c, amounts) # rest) =
     (case stats_entry_with N amounts of
        Inl e \<Rightarrow> Inl e
      | Inr s \<Rightarrow>
         (case stats_loop_with N rest of
            Inl e \<Rightarrow> Inl e
          | Inr stats \<Rightarrow> Inr ((c, s) # stats)))"

definition calculate_category_stats_with ::
  "numerics \<Rightarrow> expense list \<Rightarrow> error + (string \<times> category_stat) list" where
  "calculate_category_stats_with N expenses =
     (if expenses = [] then Inr [] else stats_loop_with N (category_data expenses))"

fun outliers_loop_with ::
  "numerics \<Rightarrow> (string \<times> category_stat) list \<Rightarrow> expense list \<Rightarrow> outlier list" where
  "outliers_loop_with N category_stats [] = []"
| "outliers_loop_with N category_stats (expense # rest) =
     (case map_of category_stats (category expense) of
        None \<Rightarrow> outliers_loop_with N category_stats rest
      | Some stats \<Rightarrow>
         (let threshold = fl_add N (stat_mean stats) (fl_mul N 2 (stat_std stats))
          in if amount expense > threshold
             then \<lparr> outlier_id = expense_id expense,
                    outlier_date = date expense,
                    outlier_category = category expense,
                    outlier_description = description expense,
                    outlier_amount = amount expense,
                    outlier_threshold = threshold,
                    outlier_mean = stat_mean stats,
                    outlier_std = stat_std stats \<rparr> # outliers_loop_with N category_stats rest
             else outliers_loop_with N category_stats rest))"

definition detect_outliers_with :: "numerics \<Rightarrow> expense list \<Rightarrow> error + outlier list" where
  "detect_outliers_with N expenses =
     (if expenses = [] then Inr []
      else (case calculate_category_stats_with N expenses of
              Inl e \<Rightarrow> Inl e
            | Inr category_stats \<Rightarrow> Inr (outliers_loop_with N category_stats expenses)))"

text \<open>\<^verbatim>\<open>predict_monthly_expense\<close> once more.\<close>

fun add_amount_with ::
  "(real \<Rightarrow> real \<Rightarrow> real) \<Rightarrow> string \<Rightarrow> real \<Rightarrow> (string \<times> real) list \<Rightarrow> (string \<times> real) list" where
  "add_amount_with add c a [] = [(c, add 0 a)]"
| "add_amount_with add c a ((k, v) # kvs) =
     (if k = c then (k, add v a) # kvs else (k, v) # add_amount_with add c a kvs)"

fun add_monthly_with ::
  "(real \<Rightarrow> real \<Rightarrow> real) \<Rightarrow> month_key \<Rightarrow> string \<Rightarrow> real
   \<Rightarrow> (month_key \<times> (string \<times> real) list) list
   \<Rightarrow> (month_key \<times> (string \<times> real) list) list" where
  "add_monthly_with add k c a [] = [(k, add_amount_with add c a [])]"
| "add_monthly_with add k c a ((k', month_data) # rest) =
     (if k' = k then (k', add_amount_with add c a month_data) # rest
      else (k', month_data) # add_monthly_with add k c a rest)"

definition monthly_step_with ::
  "numerics \<Rightarrow> (month_key \<times> (string \<times> real) list) list \<Rightarrow> expense
   \<Rightarrow> (month_key \<times> (string \<times> real) list) list" where
  "monthly_step_with N monthly_data expense =
     (case date expense of
        None \<Rightarrow> monthly_data
      | Some d \<Rightarrow>
          add_monthly_with (fl_add N) (year d, month d) (category expense) (amount expense)
            monthly_data)"

definition monthly_data_with ::
  "numerics \<Rightarrow> expense list \<Rightarrow> (month_key \<times> (string \<times> real) list) list" where
  "monthly_data_with N expenses = foldl (monthly_step_with N) [] expenses"

definition predict_category_with ::
  "numerics \<Rightarrow> month_key \<Rightarrow> date \<Rightarrow> (month_key \<times> (string \<times> real) list) list \<Rightarrow> string
   \<Rightarrow> real option" where
  "predict_category_with N start target_month monthly_data c =
     (let X = map fst (category_points start monthly_data c);
          y = map snd (category_points start monthly_data c)
      in if length X < 2
         then (if length y > 0 then Some (lib_mean N y) else None)
         else
           (let target_months = months_since_start start (year target_month, month target_month)
            in case lib_regress N X y (real_of_int target_months) of
                 Inr prediction \<Rightarrow> Some (max 0 prediction)
               | Inl e \<Rightarrow> Some (if length y > 0 then lib_mean N y else 0)))"

definition predict_monthly_expense_with ::
  "numerics \<Rightarrow> date \<Rightarrow> expense list \<Rightarrow> date option \<Rightarrow> error + (string \<times> real) list" where
  "predict_monthly_expense_with N today expenses target_month =
     (if expenses = [] then Inr []
      else
        let target_month = (case target_month of None \<Rightarrow> today | Some d \<Rightarrow> d);
            monthly_data = monthly_data_with N expenses
        in if monthly_data = [] then Inr []
           else
             let all_categories = remdups (concat (map (\<lambda>(k, month_data). map fst month_data) monthly_data))
             in bind_result (min_key (map fst monthly_data)) (\<lambda>start.
                  Inr (List.map_filter
                         (\<lambda>c. map_option (Pair c)
                                (predict_category_with N start target_month monthly_data c))
                         all_categories)))"

text \<open>
  Exact arithmetic is one instance of the parameters; at this instance the functions
  with parameters are the functions above.
\<close>

definition exact_regress :: "real list \<Rightarrow> real list \<Rightarrow> real \<Rightarrow> error + real" where
  "exact_regress X y t =
     (case linear_regression_fit X y of
        Inl e \<Rightarrow> Inl e
      | Inr model \<Rightarrow> Inr (linear_regression_predict model t))"

definition exact_numerics :: numerics where
  "exact_numerics =
     \<lparr> fl_add = (+), fl_mul = (*), lib_mean = np_mean, lib_median = np_median,
       lib_std = np_std, lib_regress = exact_regress \<rparr>"

section \<open>Specification-side notions for the statistics\<close>

text \<open>
  The amounts of one category, in input order, and the statistics the specification
  names: the category mean and the population standard deviation (dividing by the
  number of records, not by one less).
\<close>

definition amounts_of :: "string \<Rightarrow> expense list \<Rightarrow> real list" where
  "amounts_of c expenses = map amount (filter (\<lambda>e. category e = c) expenses)"

definition category_mean :: "string \<Rightarrow> expense list \<Rightarrow> real" where
  "category_mean c expenses =
     sum_list (amounts_of c expenses) / real (length (amounts_of c expenses))"

definition population_std :: "string \<Rightarrow> expense list \<Rightarrow> real" where
  "population_std c expenses =
     sqrt ((\<Sum>x\<leftarrow>amounts_of c expenses. (x - category_mean c expenses) ^ 2)
           / real (length (amounts_of c expenses)))"

definition spec_threshold :: "string \<Rightarrow> expense list \<Rightarrow> real" where
  "spec_threshold c expenses = category_mean c expenses + 2 * population_std c expenses"

definition spec_outlier :: "expense list \<Rightarrow> expense \<Rightarrow> outlier" where
  "spec_outlier expenses e =
     \<lparr> outlier_id = expense_id e,
       outlier_date = date e,
       outlier_category = category e,
       outlier_description = description e,
       outlier_amount = amount e,
       outlier_threshold = spec_threshold (category e) expenses,
       outlier_mean = category_mean (category e) expenses,
       outlier_std = population_std (category e) expenses \<rparr>"

text \<open>The statistics of a non-empty group, used to state what the loop computes.\<close>

definition entry_of :: "real list \<Rightarrow> category_stat" where
  "entry_of amounts =
     \<lparr> stat_total = sum_list amounts,
       stat_count = length amounts,
       stat_mean = np_mean amounts,
       stat_median = np_median amounts,
       stat_min = fold min (tl amounts) (hd amounts),
       stat_max = fold max (tl amounts) (hd amounts),
       stat_std = (if length amounts > 1 then np_std amounts else 0) \<rparr>"

section \<open>Specification-side notions for the monthly analyses\<close>

text \<open>
  The month of a date as a (year, month) pair, the months before and after it, and its
  first and last day.
\<close>

definition following_month :: "month_key \<Rightarrow> month_key" where
  "following_month k = (if snd k < 12 then (fst k, snd k + 1) else (fst k + 1, 1))"

definition month_of :: "date \<Rightarrow> month_key" where
  "month_of d = (year d, month d)"

definition previous_month :: "month_key \<Rightarrow> month_key" where
  "previous_month k = (if snd k = 1 then (fst k - 1, 12) else (fst k, snd k - 1))"

definition first_of :: "month_key \<Rightarrow> date" where
  "first_of k = \<lparr> year = fst k, month = snd k, day = 1 \<rparr>"

definition last_of :: "month_key \<Rightarrow> date" where
  "last_of k = \<lparr> year = fst k, month = snd k, day = days_in_month (fst k) (snd k) \<rparr>"

text \<open>
  The records of one category dated in one calendar month, and their total: the
  "monthly bucket" of the specification.
\<close>

definition in_month :: "month_key \<Rightarrow> expense \<Rightarrow> bool" where
  "in_month k e = (case date e of None \<Rightarrow> False | Some d \<Rightarrow> month_of d = k)"

definition month_amounts :: "month_key \<Rightarrow> string \<Rightarrow> expense list \<Rightarrow> real list" where
  "month_amounts k c expenses = map amount (filter (\<lambda>e. in_month k e \<and> category e = c) expenses)"

definition month_total :: "month_key \<Rightarrow> string \<Rightarrow> expense list \<Rightarrow> real" where
  "month_total k c expenses = sum_list (month_amounts k c expenses)"

text \<open>
  The growth rule in the specification's words. The quotient has no value when the
  previous total is zero, so the rule is partial: it says nothing for a previous total of
  zero and a negative current total, which non-negative amounts exclude.
\<close>

definition percent_change :: "real \<Rightarrow> real \<Rightarrow> real option" where
  "percent_change previous current =
     (if previous = 0 then None else Some ((current - previous) / previous * 100))"

definition spec_growth :: "real \<Rightarrow> real \<Rightarrow> growth option" where
  "spec_growth previous current =
     (if previous = 0 \<and> current > 0 then Some PosInf
      else if previous = 0 \<and> current = 0 then Some (Percent 0)
      else map_option Percent (percent_change previous current))"

text \<open>
  A \<^verbatim>\<open>date\<close> object of Python is a valid calendar date by construction; the
  record type above has more values, so validity is a stated assumption.
\<close>

definition dates_valid :: "expense list \<Rightarrow> bool" where
  "dates_valid expenses =
     list_all (\<lambda>e. case date e of None \<Rightarrow> True | Some d \<Rightarrow> valid_date d) expenses"

text \<open>The two branches of the loop of \<^verbatim>\<open>calculate_mom_growth\<close>, as predicates.\<close>

definition in_prev :: "date \<times> date \<times> date \<times> date \<Rightarrow> expense \<Rightarrow> bool" where
  "in_prev bounds e =
     (case bounds of (prev_start, prev_end, current_start, current_end) \<Rightarrow>
        (case date e of
           None \<Rightarrow> False
         | Some d \<Rightarrow> date_le prev_start d \<and> date_le d prev_end))"

definition in_current :: "date \<times> date \<times> date \<times> date \<Rightarrow> expense \<Rightarrow> bool" where
  "in_current bounds e =
     (case bounds of (prev_start, prev_end, current_start, current_end) \<Rightarrow>
        (case date e of
           None \<Rightarrow> False
         | Some d \<Rightarrow> \<not> (date_le prev_start d \<and> date_le d prev_end)
                     \<and> date_le current_start d \<and> date_le d current_end))"

abbreviation (input) amount_step :: "(string \<times> real) list \<Rightarrow> expense \<Rightarrow> (string \<times> real) list" where
  "amount_step \<equiv> (\<lambda>d e. add_amount (category e) (amount e) d)"

text \<open>The value written for a category, in terms of the two totals.\<close>

definition growth_value :: "real \<Rightarrow> real \<Rightarrow> growth" where
  "growth_value prev_total current_total =
     (if prev_total = 0
      then (if current_total > 0 then PosInf else Percent 0)
      else Percent (((current_total - prev_total) / prev_total) * 100))"

definition amounts_nonneg :: "expense list \<Rightarrow> bool" where
  "amounts_nonneg expenses = list_all (\<lambda>e. 0 \<le> amount e) expenses"

text \<open>
  The months in which the input has a dated record, in the order of their first
  appearance, and the data points of one category: for each such month in which the
  category has a record, the month index counted from \<open>start\<close> and the category's
  total in that month.
\<close>

definition months_present :: "expense list \<Rightarrow> month_key list" where
  "months_present expenses =
     foldl (\<lambda>acc e. case date e of
                       None \<Rightarrow> acc
                     | Some d \<Rightarrow> if month_of d \<in> set acc then acc else acc @ [month_of d])
           [] expenses"

definition spec_points :: "month_key \<Rightarrow> string \<Rightarrow> expense list \<Rightarrow> (real \<times> real) list" where
  "spec_points start c expenses =
     map (\<lambda>k. (real_of_int (months_since_start start k), month_total k c expenses))
         (filter (\<lambda>k. month_amounts k c expenses \<noteq> []) (months_present expenses))"



definition ols_slope :: "(real \<times> real) list \<Rightarrow> real" where
  "ols_slope pts =
     (let xm = np_mean (map fst pts); ym = np_mean (map snd pts);
          sxx = (\<Sum>p\<leftarrow>pts. (fst p - xm) ^ 2);
          sxy = (\<Sum>p\<leftarrow>pts. (fst p - xm) * (snd p - ym))
      in if sxx = 0 then 0 else sxy / sxx)"

definition ols_intercept :: "(real \<times> real) list \<Rightarrow> real" where
  "ols_intercept pts = np_mean (map snd pts) - ols_slope pts * np_mean (map fst pts)"

text \<open>The month that is analysed: the given one, or today's when none is given.\<close>

definition target_of :: "date \<Rightarrow> date option \<Rightarrow> date" where
  "target_of today target_month = (case target_month of None \<Rightarrow> today | Some d \<Rightarrow> d)"

text \<open>The forecast of one category from its data points and the target index.\<close>

definition spec_forecast :: "(real \<times> real) list \<Rightarrow> real \<Rightarrow> real option" where
  "spec_forecast pts t =
     (if pts = [] then None
      else if length pts < 2 then Some (sum_list (map snd pts) / real (length pts))
      else Some (max 0 (ols_intercept pts + ols_slope pts * t)))"

section \<open>Specification-side notions with the arithmetic as parameters\<close>

text \<open>
  The threshold of a category as the source computes it: the library's mean of the
  category's amounts (in input order) plus twice the library's standard deviation, which
  the source replaces by \<^verbatim>\<open>0.0\<close> for a single amount.
\<close>

definition computed_std :: "numerics \<Rightarrow> real list \<Rightarrow> real" where
  "computed_std N xs = (if length xs > 1 then lib_std N xs else 0)"

definition computed_threshold :: "numerics \<Rightarrow> string \<Rightarrow> expense list \<Rightarrow> real" where
  "computed_threshold N c expenses =
     fl_add N (lib_mean N (amounts_of c expenses))
              (fl_mul N 2 (computed_std N (amounts_of c expenses)))"

definition computed_outlier :: "numerics \<Rightarrow> expense list \<Rightarrow> expense \<Rightarrow> outlier" where
  "computed_outlier N expenses e =
     \<lparr> outlier_id = expense_id e,
       outlier_date = date e,
       outlier_category = category e,
       outlier_description = description e,
       outlier_amount = amount e,
       outlier_threshold = computed_threshold N (category e) expenses,
       outlier_mean = lib_mean N (amounts_of (category e) expenses),
       outlier_std = computed_std N (amounts_of (category e) expenses) \<rparr>"

text \<open>The statistics of a non-empty group, used to state what the loop computes.\<close>

definition entry_with :: "numerics \<Rightarrow> real list \<Rightarrow> category_stat" where
  "entry_with N amounts =
     \<lparr> stat_total = float_sum N amounts,
       stat_count = length amounts,
       stat_mean = lib_mean N amounts,
       stat_median = lib_median N amounts,
       stat_min = fold min (tl amounts) (hd amounts),
       stat_max = fold max (tl amounts) (hd amounts),
       stat_std = computed_std N amounts \<rparr>"






section \<open>Specification-side notions for parse_date\<close>

text \<open>
  Dates of the library are valid by construction: every date that
  \<^verbatim>\<open>datetime.fromisoformat\<close> returns is, and so is a date passed in.
\<close>

definition returns_valid_dates :: "(string \<Rightarrow> error + date) \<Rightarrow> bool" where
  "returns_valid_dates dtf = (\<forall>s r. dtf s = Inr r \<longrightarrow> valid_date r)"

definition valid_input :: "date_input \<Rightarrow> bool" where
  "valid_input inp = (case inp of DateValue x \<Rightarrow> valid_date x | _ \<Rightarrow> True)"

section \<open>Sample inputs\<close>

definition undated :: "string \<Rightarrow> real \<Rightarrow> expense" where
  "undated c a =
     \<lparr> expense_id = None, date = None, category = c, description = ''item'',
       amount = a, merchant = None \<rparr>"

definition food_expense :: "real \<Rightarrow> expense" where
  "food_expense a = undated ''food'' a"

definition sample_expenses :: "expense list" where
  "sample_expenses = [undated ''food'' 50, undated ''rent'' 700, undated ''food'' 60]"

definition dated :: "int \<Rightarrow> int \<Rightarrow> int \<Rightarrow> string \<Rightarrow> real \<Rightarrow> expense" where
  "dated y m d c a =
     \<lparr> expense_id = None, date = Some \<lparr> year = y, month = m, day = d \<rparr>, category = c,
       description = ''item'', amount = a, merchant = None \<rparr>"

definition growth_sample :: "expense list" where
  "growth_sample =
     [dated 2024 1 10 ''food'' 200, dated 2024 2 10 ''food'' 150, dated 2024 2 11 ''rent'' 700]"

definition mid_february :: date where
  "mid_february = \<lparr> year = 2024, month = 2, day = 15 \<rparr>"

definition rising_sample :: "expense list" where
  "rising_sample =
     [dated 2024 1 5 ''food'' 100, dated 2024 2 5 ''food'' 200, dated 2024 3 5 ''food'' 300]"

definition falling_sample :: "expense list" where
  "falling_sample =
     [dated 2024 1 5 ''food'' 300, dated 2024 2 5 ''food'' 200, dated 2024 3 5 ''food'' 100]"

definition first_of_april :: date where
  "first_of_april = \<lparr> year = 2024, month = 4, day = 1 \<rparr>"

definition first_of_june :: date where
  "first_of_june = \<lparr> year = 2024, month = 6, day = 1 \<rparr>"

definition constant_sample :: "expense list" where
  "constant_sample = [dated 2024 2 1 ''food'' 100, dated 2024 2 2 ''food'' 100]"

text \<open>A \<^verbatim>\<open>datetime.fromisoformat\<close> that rejects its argument.\<close>

definition datetime_rejects :: "string \<Rightarrow> error + date" where
  "datetime_rejects s = Inl (InvalidIsoformat s)"


text \<open>Reference dates in the first and in the last month of the calendar.\<close>

definition year_one_january :: date where
  "year_one_january = \<lparr> year = 1, month = 1, day = 15 \<rparr>"

definition last_december :: date where
  "last_december = \<lparr> year = 9999, month = 12, day = 15 \<rparr>"

section \<open>Grouping by category\<close>

lemma map_of_append_amount:
  "map_of (append_amount c a d) k =
     (if k = c then Some ((case map_of d c of None \<Rightarrow> [] | Some v \<Rightarrow> v) @ [a]) else map_of d k)"
  by (induction d) auto

lemma keys_append_amount:
  "map fst (append_amount c a d) = (if c \<in> fst ` set d then map fst d else map fst d @ [c])"
proof (induction d)
  case Nil
  then show ?case by simp
next
  case (Cons p d)
  obtain k v where p: "p = (k, v)" by (cases p)
  show ?case unfolding p using Cons.IH by (cases "k = c") simp_all
qed

lemma distinct_append_amount:
  "distinct (map fst d) \<Longrightarrow> distinct (map fst (append_amount c a d))"
  by (simp add: keys_append_amount)

lemma sum_append_amount:
  "(\<Sum>p\<leftarrow>append_amount c a d. sum_list (snd p)) = a + (\<Sum>p\<leftarrow>d. sum_list (snd p))"
  by (induction d) auto

lemma nonempty_append_amount:
  "\<forall>p \<in> set d. snd p \<noteq> [] \<Longrightarrow> \<forall>p \<in> set (append_amount c a d). snd p \<noteq> []"
proof (induction d)
  case Nil
  then show ?case by simp
next
  case (Cons p d)
  obtain k v where p: "p = (k, v)" by (cases p)
  from Cons.prems have "\<forall>p \<in> set d. snd p \<noteq> []" and v: "v \<noteq> []" by (simp_all add: p)
  with Cons.IH have "\<forall>p \<in> set (append_amount c a d). snd p \<noteq> []" by simp
  with Cons.prems v show ?case unfolding p by (cases "k = c") simp_all
qed

lemma map_of_foldl_groups:
  "map_of (foldl group_step d es) k =
     (case map_of d k of
        None \<Rightarrow> (if amounts_of k es = [] then None else Some (amounts_of k es))
      | Some v \<Rightarrow> Some (v @ amounts_of k es))"
proof (induction es arbitrary: d)
  case Nil
  then show ?case by (simp add: amounts_of_def split: option.splits)
next
  case (Cons e es)
  show ?case
    by (simp add: Cons.IH map_of_append_amount amounts_of_def split: option.splits)
qed

lemma distinct_foldl_groups:
  "distinct (map fst d) \<Longrightarrow> distinct (map fst (foldl group_step d es))"
  by (induction es arbitrary: d) (simp_all add: distinct_append_amount)

lemma sum_foldl_groups:
  "(\<Sum>p\<leftarrow>foldl group_step d es. sum_list (snd p)) = (\<Sum>p\<leftarrow>d. sum_list (snd p)) + (\<Sum>e\<leftarrow>es. amount e)"
  by (induction es arbitrary: d) (simp_all add: sum_append_amount)

lemma nonempty_foldl_groups:
  "\<forall>p \<in> set d. snd p \<noteq> [] \<Longrightarrow> \<forall>p \<in> set (foldl group_step d es). snd p \<noteq> []"
proof (induction es arbitrary: d)
  case Nil
  then show ?case by simp
next
  case (Cons e es)
  have "\<forall>p \<in> set (group_step d e). snd p \<noteq> []"
    using Cons.prems by (rule nonempty_append_amount)
  then show ?case using Cons.IH by simp
qed

lemma keys_foldl_groups:
  "fst ` set (foldl group_step d es) = fst ` set d \<union> category ` set es"
proof (induction es arbitrary: d)
  case Nil
  then show ?case by simp
next
  case (Cons e es)
  have "fst ` set (group_step d e) = insert (category e) (fst ` set d)"
    using keys_append_amount [of "category e" "amount e" d]
    by (metis (no_types, lifting) insert_absorb list.set_map set_append list.simps(15) Un_insert_right sup_bot.right_neutral list.set(1))
  then show ?case using Cons.IH [of "group_step d e"] by auto
qed

lemma map_of_category_data:
  "map_of (category_data es) c =
     (if amounts_of c es = [] then None else Some (amounts_of c es))"
  by (simp add: category_data_def map_of_foldl_groups)

lemma stats_entry_nonempty: "amounts \<noteq> [] \<Longrightarrow> stats_entry amounts = Inr (entry_of amounts)"
  by (cases amounts) (simp_all add: stats_entry_def entry_of_def)

lemma stats_loop_nonempty:
  "\<forall>p \<in> set d. snd p \<noteq> [] \<Longrightarrow> stats_loop d = Inr (map (\<lambda>p. (fst p, entry_of (snd p))) d)"
proof (induction d)
  case Nil
  then show ?case by simp
next
  case (Cons p d)
  obtain c v where p: "p = (c, v)" by (cases p)
  from Cons show ?case by (simp add: p stats_entry_nonempty)
qed

lemma calculate_category_stats_eq:
  "calculate_category_stats es = Inr (map (\<lambda>p. (fst p, entry_of (snd p))) (category_data es))"
proof (cases "es = []")
  case True
  then show ?thesis by (simp add: calculate_category_stats_def category_data_def)
next
  case False
  have "\<forall>p \<in> set (category_data es). snd p \<noteq> []"
    unfolding category_data_def by (rule nonempty_foldl_groups) simp
  then show ?thesis using False by (simp add: calculate_category_stats_def stats_loop_nonempty)
qed

lemma map_of_stats:
  "map_of (map (\<lambda>p. (fst p, entry_of (snd p))) (category_data es)) c =
     (if amounts_of c es = [] then None else Some (entry_of (amounts_of c es)))"
proof -
  have "map_of (map (\<lambda>p. (fst p, entry_of (snd p))) (category_data es)) c
        = map_option entry_of (map_of (category_data es) c)"
    proof -
    have "map_of (map (\<lambda>p. (fst p, entry_of (snd p))) d) c = map_option entry_of (map_of d c)" for d :: "(string \<times> real list) list"
      by (induction d) auto
    then show ?thesis .
  qed
  then show ?thesis by (simp add: map_of_category_data)
qed

section \<open>Outliers against the specification's threshold\<close>

lemma entry_mean: "stat_mean (entry_of (amounts_of c es)) = category_mean c es"
  by (simp add: entry_of_def np_mean_def category_mean_def)

lemma entry_std: "stat_std (entry_of (amounts_of c es)) = population_std c es"
proof (cases "length (amounts_of c es) > 1")
  case True
  then show ?thesis
    by (simp add: entry_of_def np_std_def np_mean_def population_std_def category_mean_def)
next
  case False
  then consider "amounts_of c es = []" | x where "amounts_of c es = [x]"
    by (cases "amounts_of c es") (auto simp: Suc_le_eq)
  then show ?thesis
  proof cases
    case 1
    then show ?thesis by (simp add: entry_of_def population_std_def)
  next
    case 2
    then show ?thesis by (simp add: entry_of_def population_std_def category_mean_def)
  qed
qed

lemma outliers_loop_eq:
  assumes "\<forall>e \<in> set xs. map_of stats (category e) = Some (entry_of (amounts_of (category e) es))"
  shows "outliers_loop stats xs =
           map (spec_outlier es) (filter (\<lambda>e. amount e > spec_threshold (category e) es) xs)"
  using assms
proof (induction xs)
  case Nil
  then show ?case by simp
next
  case (Cons x xs)
  then show ?case
    by (simp add: entry_mean entry_std spec_outlier_def spec_threshold_def Let_def)
qed

lemma amounts_of_member: "e \<in> set es \<Longrightarrow> amounts_of (category e) es \<noteq> []"
  by (auto simp: amounts_of_def filter_empty_conv)

lemma detect_outliers_eq:
  "detect_outliers es =
     Inr (map (spec_outlier es) (filter (\<lambda>e. amount e > spec_threshold (category e) es) es))"
proof (cases "es = []")
  case True
  then show ?thesis by (simp add: detect_outliers_def)
next
  case False
  let ?stats = "map (\<lambda>p. (fst p, entry_of (snd p))) (category_data es)"
  have "\<forall>e \<in> set es. map_of ?stats (category e) = Some (entry_of (amounts_of (category e) es))"
    by (simp add: map_of_stats amounts_of_member)
  then have "outliers_loop ?stats es =
      map (spec_outlier es) (filter (\<lambda>e. amount e > spec_threshold (category e) es) es)"
    by (rule outliers_loop_eq)
  then show ?thesis using False
    by (simp add: detect_outliers_def calculate_category_stats_eq)
qed

lemma amounts_of_food: "amounts_of ''food'' (map food_expense xs) = xs"
  by (induction xs) (simp_all add: amounts_of_def food_expense_def undated_def)

lemma sqrt_25600: "sqrt 25600 = 160"
  by (rule real_sqrt_unique) simp_all

lemma threshold_500:
  "spec_threshold ''food'' (map food_expense [100, 100, 100, 100, 500]) = 500"
  unfolding spec_threshold_def population_std_def category_mean_def amounts_of_food
  by (simp add: sqrt_25600)


lemma none_500: "detect_outliers (map food_expense [100, 100, 100, 100, 500]) = Inr []"
proof -
  let ?es = "map food_expense [100, 100, 100, 100, 500]"
  have "\<forall>e \<in> set ?es. category e = ''food'' \<and> amount e \<le> 500"
    by (simp add: food_expense_def undated_def)
  then have "filter (\<lambda>e. amount e > spec_threshold (category e) ?es) ?es = []"
    unfolding filter_empty_conv using threshold_500 by (metis not_less)
  then show ?thesis unfolding detect_outliers_eq by simp
qed


lemma entry_of_single:
  "entry_of [a] = \<lparr> stat_total = a, stat_count = 1, stat_mean = a, stat_median = a,
                      stat_min = a, stat_max = a, stat_std = 0 \<rparr>"
  by (simp add: entry_of_def np_mean_def np_median_def)







section \<open>Claims about the category statistics\<close>

text \<open>
  Claim C1. For every non-empty list of expense records, calculate_category_stats
  returns a mapping with one entry per category (no category twice), and the sum of
  the entries' totals equals the sum of the amounts of all records, in exact arithmetic.
\<close>

theorem category_totals_sum:
  assumes "expenses \<noteq> []"
  shows "\<exists>stats. calculate_category_stats expenses = Inr stats
           \<and> distinct (map fst stats)
           \<and> fst ` set stats = category ` set expenses
           \<and> (\<Sum>p\<leftarrow>stats. stat_total (snd p)) = (\<Sum>e\<leftarrow>expenses. amount e)"
proof -
  let ?stats = "map (\<lambda>p. (fst p, entry_of (snd p))) (category_data expenses)"
  have keys: "map fst ?stats = map fst (category_data expenses)"
    by (simp add: comp_def)
  have "distinct (map fst (category_data expenses))"
    unfolding category_data_def by (rule distinct_foldl_groups) simp
  then have d: "distinct (map fst ?stats)"
    by (simp only: keys)
  have "fst ` set (category_data expenses) = category ` set expenses"
    unfolding category_data_def by (simp add: keys_foldl_groups)
  then have k: "fst ` set ?stats = category ` set expenses"
    by (simp add: image_image)
  have "(\<Sum>p\<leftarrow>?stats. stat_total (snd p)) = (\<Sum>p\<leftarrow>category_data expenses. sum_list (snd p))"
    by (simp add: comp_def entry_of_def)
  also have "\<dots> = (\<Sum>e\<leftarrow>expenses. amount e)"
    unfolding category_data_def by (simp add: sum_foldl_groups)
  finally have s: "(\<Sum>p\<leftarrow>?stats. stat_total (snd p)) = (\<Sum>e\<leftarrow>expenses. amount e)" .
  show ?thesis
    using d k s calculate_category_stats_eq [of expenses] by blast
qed

theorem category_totals_sum_witness:
  "sample_expenses \<noteq> []
   \<and> (\<exists>stats. calculate_category_stats sample_expenses = Inr stats
         \<and> (\<Sum>p\<leftarrow>stats. stat_total (snd p)) = 810)"
proof -
  have ne: "sample_expenses \<noteq> []"
    by (simp add: sample_expenses_def)
  have "(\<Sum>e\<leftarrow>sample_expenses. amount e) = 810"
    by (simp add: sample_expenses_def undated_def)
  then show ?thesis
    using ne category_totals_sum [OF ne] by auto
qed

text \<open>
  Claim C5. When exactly one record of the input has category c, the statistics of c
  have count 1, standard deviation 0 and mean, median, minimum and maximum equal to
  that record's amount; and detect_outliers reports no record of category c, since the
  threshold equals the amount and a record is reported only above its threshold.
\<close>

theorem single_record_category:
  assumes "filter (\<lambda>e. category e = c) expenses = [x]"
  shows "\<exists>stats s. calculate_category_stats expenses = Inr stats
           \<and> map_of stats c = Some s
           \<and> stat_count s = 1
           \<and> stat_std s = 0
           \<and> stat_mean s = amount x \<and> stat_median s = amount x
           \<and> stat_min s = amount x \<and> stat_max s = amount x
           \<and> (\<exists>outliers. detect_outliers expenses = Inr outliers
                 \<and> (\<forall>out \<in> set outliers. outlier_category out \<noteq> c))"
proof -
  let ?stats = "map (\<lambda>p. (fst p, entry_of (snd p))) (category_data expenses)"
  have am: "amounts_of c expenses = [amount x]"
    using assms by (simp add: amounts_of_def)
  then have look: "map_of ?stats c = Some (entry_of [amount x])"
    by (simp add: map_of_stats)
  have thr: "spec_threshold c expenses = amount x"
    by (simp add: spec_threshold_def population_std_def category_mean_def am)
  have none: "outlier_category out \<noteq> c"
    if "out \<in> set (map (spec_outlier expenses)
                  (filter (\<lambda>e. amount e > spec_threshold (category e) expenses) expenses))" for out
  proof
    assume oc: "outlier_category out = c"
    from that obtain e where e: "e \<in> set expenses" "amount e > spec_threshold (category e) expenses"
      and o: "out = spec_outlier expenses e"
      by auto
    from o oc have "category e = c" by (simp add: spec_outlier_def)
    with e(1) have "e \<in> set (filter (\<lambda>e. category e = c) expenses)" by simp
    with assms have "e = x" by simp
    with e(2) \<open>category e = c\<close> thr show False by simp
  qed
  show ?thesis
    using look none calculate_category_stats_eq [of expenses] detect_outliers_eq [of expenses]
    by (auto simp: entry_of_single)
qed

theorem single_record_category_witness:
  "filter (\<lambda>e. category e = ''rent'') sample_expenses = [undated ''rent'' 700]
   \<and> (\<exists>stats s. calculate_category_stats sample_expenses = Inr stats
          \<and> map_of stats ''rent'' = Some s \<and> stat_std s = 0 \<and> stat_mean s = 700)"
proof -
  have h: "filter (\<lambda>e. category e = ''rent'') sample_expenses = [undated ''rent'' 700]"
    by (simp add: sample_expenses_def undated_def)
  have "amount (undated ''rent'' 700) = 700"
    by (simp add: undated_def)
  then show ?thesis
    using h single_record_category [OF h] by auto
qed


section \<open>Claims about the outliers\<close>


section \<open>Calendar arithmetic and monthly growth\<close>

lemma days_in_month_cases:
  "days_in_month y m = 28 \<or> days_in_month y m = 29 \<or> days_in_month y m = 30 \<or> days_in_month y m = 31"
  by (simp add: days_in_month_def)

lemma days_in_month_bounds: "28 \<le> days_in_month y m" "days_in_month y m \<le> 31"
  using days_in_month_cases [of y m] by auto

lemma next_day_steps:
  "day d + int k \<le> days_in_month (year d) (month d) \<Longrightarrow> (next_day ^^ k) d = d\<lparr> day := day d + int k \<rparr>"
proof (induction k)
  case 0
  then show ?case by simp
next
  case (Suc k)
  then have ih: "(next_day ^^ k) d = d\<lparr> day := day d + int k \<rparr>" by simp
  have lt: "day d + int k < days_in_month (year d) (month d)"
    using Suc.prems by simp
  have "(next_day ^^ Suc k) d = next_day ((next_day ^^ k) d)" by simp
  also have "\<dots> = next_day (d\<lparr> day := day d + int k \<rparr>)" by (simp only: ih)
  also have "\<dots> = d\<lparr> day := day d + int (Suc k) \<rparr>"
    using lt by (simp add: next_day_def add.assoc)
  finally show ?case .
qed

lemma month_end_reached:
  "(next_day ^^ nat (days_in_month y m - 1)) \<lparr> year = y, month = m, day = 1 \<rparr>
     = \<lparr> year = y, month = m, day = days_in_month y m \<rparr>"
proof -
  have "1 + int (nat (days_in_month y m - 1)) = days_in_month y m"
    using days_in_month_bounds(1) [of y m] by simp
  then show ?thesis
    using next_day_steps [of "\<lparr> year = y, month = m, day = 1 \<rparr>" "nat (days_in_month y m - 1)"]
    by simp
qed

lemma thirty_two_days_later:
  "(next_day ^^ 32) \<lparr> year = y, month = m, day = 1 \<rparr>
     = \<lparr> year = fst (following_month (y, m)), month = snd (following_month (y, m)),
         day = 33 - days_in_month y m \<rparr>"
proof -
  let ?dim = "days_in_month y m"
  let ?a = "nat (?dim - 1)"
  let ?b = "nat (32 - ?dim)"
  let ?first = "\<lparr> year = fst (following_month (y, m)), month = snd (following_month (y, m)), day = 1 \<rparr>"
  have split: "(32::nat) = ?b + Suc ?a"
    using days_in_month_bounds [of y m] by simp
  have "(next_day ^^ 32) \<lparr> year = y, month = m, day = 1 \<rparr>
          = (next_day ^^ ?b) (next_day ((next_day ^^ ?a) \<lparr> year = y, month = m, day = 1 \<rparr>))"
    by (subst split) (simp only: funpow_add o_apply funpow.simps)
  also have "\<dots> = (next_day ^^ ?b) (next_day \<lparr> year = y, month = m, day = ?dim \<rparr>)"
    by (simp only: month_end_reached)
  also have "next_day \<lparr> year = y, month = m, day = ?dim \<rparr> = ?first"
    by (simp add: next_day_def following_month_def)
  also have "(next_day ^^ ?b) ?first = ?first\<lparr> day := day ?first + int ?b \<rparr>"
  proof (rule next_day_steps)
    have "int ?b \<le> 4" using days_in_month_bounds [of y m] by simp
    moreover have "28 \<le> days_in_month (year ?first) (month ?first)"
      by (rule days_in_month_bounds)
    ultimately show "day ?first + int ?b \<le> days_in_month (year ?first) (month ?first)"
      by simp
  qed
  also have "\<dots> = \<lparr> year = fst (following_month (y, m)), month = snd (following_month (y, m)),
                      day = 33 - ?dim \<rparr>"
    using days_in_month_bounds [of y m] by simp
  finally show ?thesis .
qed

lemma mk_date_first:
  "1 \<le> fst k \<Longrightarrow> fst k \<le> 9999 \<Longrightarrow> 1 \<le> snd k \<Longrightarrow> snd k \<le> 12
   \<Longrightarrow> mk_date (fst k) (snd k) 1 = Inr (first_of k)"
  using days_in_month_bounds(1) [of "fst k" "snd k"] by (simp add: mk_date_def first_of_def)

lemma day_before_first:
  "1 \<le> y \<Longrightarrow> 1 < m \<Longrightarrow> date_sub_days (first_of (y, m)) 1 = Inr (last_of (y, m - 1))"
  by (simp add: date_sub_days_def prev_day_def first_of_def last_of_def)

lemma day_before_january:
  "1 < y \<Longrightarrow> date_sub_days (first_of (y, 1)) 1 = Inr (last_of (y - 1, 12))"
  by (simp add: date_sub_days_def prev_day_def first_of_def last_of_def days_in_month_def)

lemma add_32_days:
  assumes "y < 9999 \<or> m < 12"  "y \<le> 9999"
  shows "date_add_days (first_of (y, m)) 32
           = Inr \<lparr> year = fst (following_month (y, m)), month = snd (following_month (y, m)),
                   day = 33 - days_in_month y m \<rparr>"
  using assms
  by (auto simp add: date_add_days_def first_of_def thirty_two_days_later following_month_def)

lemma month_bounds_eq:
  assumes "valid_date ref" "month_of ref \<noteq> (1, 1)" "month_of ref \<noteq> (9999, 12)"
  shows "month_bounds ref =
           Inr (first_of (previous_month (month_of ref)), last_of (previous_month (month_of ref)),
                first_of (month_of ref), last_of (month_of ref))"
proof -
  let ?y = "year ref" and ?m = "month ref"
  from assms(1) have r: "1 \<le> ?y" "?y \<le> 9999" "1 \<le> ?m" "?m \<le> 12"
    by (simp_all add: valid_date_def)
  have cs: "mk_date ?y ?m 1 = Inr (first_of (?y, ?m))"
    using r mk_date_first [of "(?y, ?m)"] by simp
  have nxt: "date_add_days (first_of (?y, ?m)) 32
           = Inr \<lparr> year = fst (following_month (?y, ?m)), month = snd (following_month (?y, ?m)),
                   day = 33 - days_in_month ?y ?m \<rparr>"
    using assms(3) r by (intro add_32_days) (auto simp: month_of_def)
  let ?fm = "following_month (?y, ?m)"
  have fm: "mk_date (fst ?fm) (snd ?fm) 1 = Inr (first_of ?fm)"
    using r assms(3) by (intro mk_date_first) (auto simp: following_month_def month_of_def)
  have ce: "date_sub_days (first_of ?fm) 1 = Inr (last_of (?y, ?m))"
  proof (cases "?m < 12")
    case True
    then show ?thesis
      using r day_before_first [of ?y "?m + 1"] by (simp add: following_month_def)
  next
    case False
    with r have m: "?m = 12" by simp
    then show ?thesis
      using r day_before_january [of "?y + 1"] by (simp add: following_month_def)
  qed
  show ?thesis
  proof (cases "?m = 1")
    case True
    with assms(2) r have y: "1 < ?y" by (simp add: month_of_def)
    have "mk_date (?y - 1) 12 31 = Inr (last_of (?y - 1, 12))"
      using y r by (simp add: mk_date_def last_of_def days_in_month_def)
    moreover have "mk_date (?y - 1) 12 1 = Inr (first_of (?y - 1, 12))"
      using y r mk_date_first [of "(?y - 1, 12)"] by simp
    ultimately show ?thesis
      using True cs nxt fm ce
      by (simp add: month_bounds_def bind_result_def month_of_def previous_month_def)
  next
    case False
    with r have m: "1 < ?m" by simp
    have "mk_date ?y (?m - 1) 1 = Inr (first_of (?y, ?m - 1))"
      using m r mk_date_first [of "(?y, ?m - 1)"] by simp
    moreover have "date_sub_days (first_of (?y, ?m)) 1 = Inr (last_of (?y, ?m - 1))"
      using r m by (intro day_before_first)
    ultimately show ?thesis
      using False cs nxt fm ce
      by (simp add: month_bounds_def bind_result_def month_of_def previous_month_def)
  qed
qed

lemma in_month_range:
  assumes "valid_date d"
  shows "(date_le (first_of k) d \<and> date_le d (last_of k)) \<longleftrightarrow> month_of d = k"
  using assms
  by (cases k) (auto simp: date_le_def first_of_def last_of_def month_of_def valid_date_def)

lemma map_of_add_amount:
  "map_of (add_amount c a d) k = (if k = c then Some (get_or_zero d c + a) else map_of d k)"
  by (induction d) (auto simp: get_or_zero_def)

lemma keys_add_amount:
  "map fst (add_amount c a d) = (if c \<in> fst ` set d then map fst d else map fst d @ [c])"
proof (induction d)
  case Nil
  then show ?case by simp
next
  case (Cons p d)
  obtain k v where p: "p = (k, v)" by (cases p)
  show ?case unfolding p using Cons.IH by (cases "k = c") simp_all
qed

lemma get_or_zero_add_amount:
  "get_or_zero (add_amount c a d) k = (if k = c then get_or_zero d c + a else get_or_zero d k)"
  by (simp add: get_or_zero_def map_of_add_amount)

lemma get_or_zero_empty: "get_or_zero [] c = 0"
  by (simp add: get_or_zero_def)

lemma get_or_zero_foldl:
  "get_or_zero (foldl amount_step d es) c = get_or_zero d c + sum_list (amounts_of c es)"
  by (induction es arbitrary: d) (simp_all add: get_or_zero_add_amount amounts_of_def)

lemma keys_foldl_amounts:
  "fst ` set (foldl amount_step d es) = fst ` set d \<union> category ` set es"
proof (induction es arbitrary: d)
  case Nil
  then show ?case by simp
next
  case (Cons e es)
  have "set (map fst (amount_step d e)) = insert (category e) (fst ` set d)"
    by (auto simp: keys_add_amount)
  then have "fst ` set (amount_step d e) = insert (category e) (fst ` set d)"
    by simp
  then show ?case using Cons.IH [of "amount_step d e"] by auto
qed

lemma bucket_loop_eq:
  "bucket_loop bounds es (cur, prev) =
     (foldl amount_step cur (filter (in_current bounds) es),
      foldl amount_step prev (filter (in_prev bounds) es))"
proof (induction es arbitrary: cur prev)
  case Nil
  then show ?case by (cases bounds) simp
next
  case (Cons e es)
  obtain ps pe cs ce where b: "bounds = (ps, pe, cs, ce)" by (cases bounds)
  show ?case
    unfolding b using Cons.IH [unfolded b]
    by (cases "date e") (simp_all add: in_prev_def in_current_def)
qed

lemma category_in_amounts: "c \<in> category ` set es \<longleftrightarrow> amounts_of c es \<noteq> []"
  by (auto simp: amounts_of_def filter_empty_conv)

lemma amounts_of_filter_month:
  "amounts_of c (filter (in_month k) es) = month_amounts k c es"
  by (simp add: amounts_of_def month_amounts_def conj_commute)

lemma previous_month_differs: "previous_month k \<noteq> k"
  by (cases k) (auto simp: previous_month_def)

lemma filter_prev_month:
  assumes "dates_valid es"
  shows "filter (in_prev (first_of pk, last_of pk, first_of k, last_of k)) es = filter (in_month pk) es"
proof (rule filter_cong [OF refl])
  fix e assume "e \<in> set es"
  with assms have v: "case date e of None \<Rightarrow> True | Some d \<Rightarrow> valid_date d"
    by (simp add: dates_valid_def list_all_iff)
  show "in_prev (first_of pk, last_of pk, first_of k, last_of k) e = in_month pk e"
    using v by (cases "date e") (simp_all add: in_prev_def in_month_def in_month_range)
qed

lemma filter_current_month:
  assumes "dates_valid es" "pk \<noteq> k"
  shows "filter (in_current (first_of pk, last_of pk, first_of k, last_of k)) es = filter (in_month k) es"
proof (rule filter_cong [OF refl])
  fix e assume "e \<in> set es"
  with assms have v: "case date e of None \<Rightarrow> True | Some d \<Rightarrow> valid_date d"
    by (simp add: dates_valid_def list_all_iff)
  show "in_current (first_of pk, last_of pk, first_of k, last_of k) e = in_month k e"
  proof (cases "date e")
    case None
    then show ?thesis by (simp add: in_current_def in_month_def)
  next
    case (Some d)
    with v have vd: "valid_date d" by simp
    show ?thesis
      using assms(2) in_month_range [OF vd, of pk] in_month_range [OF vd, of k]
      by (auto simp add: in_current_def in_month_def Some)
  qed
qed

lemma map_of_growth_list:
  "map_of (map (\<lambda>c. (c, f c)) (remdups ks)) c = (if c \<in> set ks then Some (f c) else None)"
  by (induction ks) auto

lemma growth_lookup:
  assumes "es \<noteq> []" "month_bounds (case cm of None \<Rightarrow> today | Some d \<Rightarrow> d) = Inr bounds"
  shows "\<exists>g. calculate_mom_growth today es cm = Inr g
           \<and> (\<forall>c. map_of g c =
                 (if amounts_of c (filter (in_current bounds) es) = []
                     \<and> amounts_of c (filter (in_prev bounds) es) = [] then None
                  else Some (growth_value (sum_list (amounts_of c (filter (in_prev bounds) es)))
                                          (sum_list (amounts_of c (filter (in_current bounds) es))))))"
proof -
  let ?cur = "foldl amount_step [] (filter (in_current bounds) es)"
  let ?prev = "foldl amount_step [] (filter (in_prev bounds) es)"
  let ?g = "map (\<lambda>c. (c, growth_entry ?prev ?cur c)) (remdups (map fst ?cur @ map fst ?prev))"
  have run: "calculate_mom_growth today es cm = Inr ?g"
    using assms by (simp add: calculate_mom_growth_def bind_result_def bucket_loop_eq)
  have keys: "c \<in> set (map fst ?cur @ map fst ?prev)
                \<longleftrightarrow> \<not> (amounts_of c (filter (in_current bounds) es) = []
                        \<and> amounts_of c (filter (in_prev bounds) es) = [])" for c
    using keys_foldl_amounts [of "[]" "filter (in_current bounds) es"]
          keys_foldl_amounts [of "[]" "filter (in_prev bounds) es"]
    by (simp add: category_in_amounts [symmetric])
  have entry: "growth_entry ?prev ?cur c
                 = growth_value (sum_list (amounts_of c (filter (in_prev bounds) es)))
                                (sum_list (amounts_of c (filter (in_current bounds) es)))" for c
    by (simp add: growth_entry_def growth_value_def get_or_zero_foldl get_or_zero_empty Let_def)
  have "map_of ?g c =
          (if amounts_of c (filter (in_current bounds) es) = []
              \<and> amounts_of c (filter (in_prev bounds) es) = [] then None
           else Some (growth_value (sum_list (amounts_of c (filter (in_prev bounds) es)))
                                   (sum_list (amounts_of c (filter (in_current bounds) es)))))" for c
    unfolding map_of_growth_list using keys [of c] entry [of c] by simp
  with run show ?thesis by blast
qed

lemma growth_run:
  assumes "es \<noteq> []" "month_bounds (case cm of None \<Rightarrow> today | Some d \<Rightarrow> d) = Inr bounds"
  shows "calculate_mom_growth today es cm =
           Inr (map (\<lambda>c. (c, growth_value (sum_list (amounts_of c (filter (in_prev bounds) es)))
                                          (sum_list (amounts_of c (filter (in_current bounds) es)))))
                  (remdups (map fst (foldl amount_step [] (filter (in_current bounds) es))
                            @ map fst (foldl amount_step [] (filter (in_prev bounds) es)))))"
proof -
  have "growth_entry (foldl amount_step [] (filter (in_prev bounds) es))
                     (foldl amount_step [] (filter (in_current bounds) es)) c
          = growth_value (sum_list (amounts_of c (filter (in_prev bounds) es)))
                         (sum_list (amounts_of c (filter (in_current bounds) es)))" for c
    by (simp add: growth_entry_def growth_value_def get_or_zero_foldl get_or_zero_empty Let_def)
  then show ?thesis
    using assms by (simp add: calculate_mom_growth_def bind_result_def bucket_loop_eq)
qed

lemma sum_amounts_nonneg: "amounts_nonneg es \<Longrightarrow> 0 \<le> sum_list (amounts_of c (filter P es))"
  by (rule sum_list_nonneg) (auto simp: amounts_nonneg_def amounts_of_def list_all_iff)

lemma month_total_nonneg: "amounts_nonneg es \<Longrightarrow> 0 \<le> month_total k c es"
  unfolding month_total_def
  by (rule sum_list_nonneg) (auto simp: amounts_nonneg_def month_amounts_def list_all_iff)

lemma growth_value_lower:
  assumes "0 \<le> p" "0 \<le> cu" "growth_value p cu = Percent v"
  shows "- 100 \<le> v"
proof (cases "p = 0")
  case True
  with assms(3) show ?thesis by (simp add: growth_value_def split: if_splits)
next
  case False
  with assms(1) have p: "0 < p" by simp
  from False assms(3) have v: "v = (cu - p) / p * 100"
    by (simp add: growth_value_def)
  show ?thesis
    unfolding v using p assms(2) by (simp add: field_simps)
qed

lemma spec_growth_value: "spec_growth p cu = Some v \<Longrightarrow> growth_value p cu = v"
  by (auto simp: spec_growth_def growth_value_def percent_change_def split: if_splits)

lemma spec_growth_defined: "0 \<le> p \<Longrightarrow> 0 \<le> cu \<Longrightarrow> spec_growth p cu \<noteq> None"
  by (auto simp: spec_growth_def percent_change_def)

text \<open>
  Claim C3, as amended. For a reference month (the given one, or today's when none is
  given) and records with valid dates, calculate_mom_growth returns a mapping whose keys are
  exactly the categories with a record dated in the reference month or in the month
  before it. Writing p and c for the totals of a category in the previous and in the
  reference month: the value is the infinity sentinel when p = 0 and c > 0, it is 0.0
  when both are zero, and otherwise it is (c - p) / p * 100; with non-negative amounts
  one of the three cases always applies. Totals 200 and 150 give -25. January of year 1
  and December of year 9999 are left out: there the bounds of the neighbouring month
  are not dates of the library.
\<close>

theorem mom_growth_by_category:
  assumes "valid_date ref" "month_of ref \<noteq> (1, 1)" "month_of ref \<noteq> (9999, 12)"
    and "dates_valid expenses"
    and "ref = (case current_month of None \<Rightarrow> today | Some d \<Rightarrow> d)"
  shows "\<exists>g. calculate_mom_growth today expenses current_month = Inr g
          \<and> (\<forall>c. (map_of g c = None)
                  = (month_amounts (previous_month (month_of ref)) c expenses = []
                     \<and> month_amounts (month_of ref) c expenses = []))
          \<and> (\<forall>c v. map_of g c \<noteq> None
                  \<longrightarrow> spec_growth (month_total (previous_month (month_of ref)) c expenses)
                                   (month_total (month_of ref) c expenses) = Some v
                  \<longrightarrow> map_of g c = Some v)
          \<and> (amounts_nonneg expenses
                \<longrightarrow> (\<forall>c. spec_growth (month_total (previous_month (month_of ref)) c expenses)
                                       (month_total (month_of ref) c expenses) \<noteq> None))
          \<and> spec_growth 200 150 = Some (Percent (- 25))"
proof -
  let ?k = "month_of ref" and ?pk = "previous_month (month_of ref)"
  let ?bounds = "(first_of ?pk, last_of ?pk, first_of ?k, last_of ?k)"
  have ex: "spec_growth 200 150 = Some (Percent (- 25))"
    by (simp add: spec_growth_def percent_change_def)
  have defd: "amounts_nonneg expenses
                \<longrightarrow> (\<forall>c. spec_growth (month_total ?pk c expenses) (month_total ?k c expenses) \<noteq> None)"
    by (simp add: spec_growth_defined month_total_nonneg)
  show ?thesis
  proof (cases "expenses = []")
    case True
    then have "calculate_mom_growth today expenses current_month = Inr []"
      by (simp add: calculate_mom_growth_def)
    with True ex defd show ?thesis
      by (simp add: month_amounts_def)
  next
    case False
    have b: "month_bounds (case current_month of None \<Rightarrow> today | Some d \<Rightarrow> d) = Inr ?bounds"
      using month_bounds_eq [OF assms(1-3)] assms(5) by simp
    have p: "amounts_of c (filter (in_prev ?bounds) expenses) = month_amounts ?pk c expenses" for c
      by (simp add: filter_prev_month [OF assms(4)] amounts_of_filter_month)
    have c: "amounts_of c (filter (in_current ?bounds) expenses) = month_amounts ?k c expenses" for c
      by (simp add: filter_current_month [OF assms(4) previous_month_differs] amounts_of_filter_month)
    from growth_lookup [OF False b] obtain g where
      run: "calculate_mom_growth today expenses current_month = Inr g"
      and look: "\<And>c. map_of g c =
                 (if month_amounts ?k c expenses = [] \<and> month_amounts ?pk c expenses = [] then None
                  else Some (growth_value (month_total ?pk c expenses) (month_total ?k c expenses)))"
      unfolding p c month_total_def by blast
    have none: "(map_of g c = None)
                  = (month_amounts ?pk c expenses = [] \<and> month_amounts ?k c expenses = [])" for c
      by (auto simp: look)
    have some: "map_of g c = Some v"
      if "map_of g c \<noteq> None"
        and "spec_growth (month_total ?pk c expenses) (month_total ?k c expenses) = Some v" for c v
      using that spec_growth_value [OF that(2)] by (simp add: look split: if_splits)
    from run none some ex defd show ?thesis by blast
  qed
qed

lemma growth_sample_valid: "dates_valid growth_sample"
  by (simp add: dates_valid_def growth_sample_def dated_def valid_date_def days_in_month_def is_leap_def)

lemma mid_february_valid:
  "valid_date mid_february" "month_of mid_february \<noteq> (1, 1)" "month_of mid_february \<noteq> (9999, 12)"
  by (simp_all add: mid_february_def valid_date_def days_in_month_def is_leap_def month_of_def)

theorem mom_growth_by_category_witness:
  "valid_date mid_february \<and> month_of mid_february \<noteq> (1, 1) \<and> month_of mid_february \<noteq> (9999, 12)
   \<and> dates_valid growth_sample \<and> amounts_nonneg growth_sample
   \<and> (\<exists>g. calculate_mom_growth mid_february growth_sample (Some mid_february) = Inr g
          \<and> map_of g ''food'' = Some (Percent (- 25))
          \<and> map_of g ''rent'' = Some PosInf
          \<and> map_of g ''travel'' = None)"
proof -
  have nn: "amounts_nonneg growth_sample"
    by (simp add: amounts_nonneg_def growth_sample_def dated_def)
  have k: "month_of mid_february = (2024, 2)" "previous_month (2024, 2) = (2024, 1)"
    by (simp_all add: month_of_def mid_february_def previous_month_def)
  have am: "month_amounts (2024, 1) ''food'' growth_sample = [200]"
    "month_amounts (2024, 2) ''food'' growth_sample = [150]"
    "month_amounts (2024, 1) ''rent'' growth_sample = []"
    "month_amounts (2024, 2) ''rent'' growth_sample = [700]"
    "month_amounts (2024, 1) ''travel'' growth_sample = []"
    "month_amounts (2024, 2) ''travel'' growth_sample = []"
    by (simp_all add: month_amounts_def growth_sample_def dated_def in_month_def month_of_def)
  have sg: "spec_growth 200 150 = Some (Percent (- 25))" "spec_growth 0 700 = Some PosInf"
    by (simp_all add: spec_growth_def percent_change_def)
  have rf: "mid_february = (case Some mid_february of None \<Rightarrow> mid_february | Some d \<Rightarrow> d)"
    by simp
  from mom_growth_by_category [OF mid_february_valid growth_sample_valid rf]
  obtain g where run: "calculate_mom_growth mid_february growth_sample (Some mid_february) = Inr g"
    and none: "\<And>c. (map_of g c = None)
                  = (month_amounts (2024, 1) c growth_sample = []
                     \<and> month_amounts (2024, 2) c growth_sample = [])"
    and some: "\<And>c v. map_of g c \<noteq> None
                  \<Longrightarrow> spec_growth (month_total (2024, 1) c growth_sample)
                                   (month_total (2024, 2) c growth_sample) = Some v
                  \<Longrightarrow> map_of g c = Some v"
    unfolding k by auto
  have "map_of g ''food'' = Some (Percent (- 25))"
    by (rule some) (simp_all add: none am month_total_def sg)
  moreover have "map_of g ''rent'' = Some PosInf"
    by (rule some) (simp_all add: none am month_total_def sg)
  moreover have "map_of g ''travel'' = None"
    by (simp add: none am)
  ultimately show ?thesis
    using run nn mid_february_valid growth_sample_valid by blast
qed

text \<open>
  Claim C10. With non-negative amounts, every numeric value in the mapping returned by
  calculate_mom_growth is at least -100.
\<close>

theorem mom_growth_lower_bound:
  assumes "amounts_nonneg expenses"
    and "calculate_mom_growth today expenses current_month = Inr g"
    and "(c, Percent v) \<in> set g"
  shows "- 100 \<le> v"
proof -
  from assms(2,3) have ne: "expenses \<noteq> []"
    by (auto simp: calculate_mom_growth_def)
  with assms(2) obtain bounds where
    b: "month_bounds (case current_month of None \<Rightarrow> today | Some d \<Rightarrow> d) = Inr bounds"
    by (cases "month_bounds (case current_month of None \<Rightarrow> today | Some d \<Rightarrow> d)")
       (simp_all add: calculate_mom_growth_def bind_result_def)
  from assms(2,3) growth_run [OF ne b]
  have "Percent v = growth_value (sum_list (amounts_of c (filter (in_prev bounds) expenses)))
                                 (sum_list (amounts_of c (filter (in_current bounds) expenses)))"
    by auto
  then show ?thesis
    using growth_value_lower [OF sum_amounts_nonneg [OF assms(1)] sum_amounts_nonneg [OF assms(1)]]
    by metis
qed

lemma growth_sample_run:
  "calculate_mom_growth mid_february growth_sample (Some mid_february)
     = Inr [(''rent'', PosInf), (''food'', Percent (- 25))]"
proof -
  let ?bounds = "(first_of (2024, 1), last_of (2024, 1), first_of (2024, 2), last_of (2024, 2))"
  have b: "month_bounds (case Some mid_february of None \<Rightarrow> mid_february | Some d \<Rightarrow> d) = Inr ?bounds"
    using month_bounds_eq [OF mid_february_valid]
    by (simp add: month_of_def mid_february_def previous_month_def)
  have ne: "growth_sample \<noteq> []"
    by (simp add: growth_sample_def)
  have p: "filter (in_prev ?bounds) growth_sample = [dated 2024 1 10 ''food'' 200]"
    by (simp add: growth_sample_def in_prev_def dated_def date_le_def first_of_def last_of_def
        days_in_month_def is_leap_def)
  have c: "filter (in_current ?bounds) growth_sample
             = [dated 2024 2 10 ''food'' 150, dated 2024 2 11 ''rent'' 700]"
    by (simp add: growth_sample_def in_current_def dated_def date_le_def first_of_def last_of_def
        days_in_month_def is_leap_def)
  show ?thesis
    unfolding growth_run [OF ne b] p c
    by (simp add: dated_def amounts_of_def growth_value_def)
qed

theorem mom_growth_lower_bound_witness:
  "amounts_nonneg growth_sample
   \<and> calculate_mom_growth mid_february growth_sample (Some mid_february)
       = Inr [(''rent'', PosInf), (''food'', Percent (- 25))]
   \<and> (''food'', Percent (- 25)) \<in> set [(''rent'', PosInf), (''food'', Percent (- 25))]
   \<and> - 100 \<le> (- 25 :: real)"
proof -
  have nn: "amounts_nonneg growth_sample"
    by (simp add: amounts_nonneg_def growth_sample_def dated_def)
  have m: "(''food'', Percent (- 25)) \<in> set [(''rent'', PosInf), (''food'', Percent (- 25))]"
    by simp
  show ?thesis
    using nn m growth_sample_run mom_growth_lower_bound [OF nn growth_sample_run m] by simp
qed


section \<open>Monthly data and forecasting\<close>

lemma map_of_foldl_amounts:
  "map_of (foldl amount_step [] es) c =
     (if amounts_of c es = [] then None else Some (sum_list (amounts_of c es)))"
proof (cases "amounts_of c es = []")
  case True
  then have "c \<notin> fst ` set (foldl amount_step [] es)"
    by (simp add: keys_foldl_amounts category_in_amounts)
  then have "map_of (foldl amount_step [] es) c = None"
    by (simp add: map_of_eq_None_iff)
  with True show ?thesis by simp
next
  case False
  then have "c \<in> fst ` set (foldl amount_step [] es)"
    by (simp add: keys_foldl_amounts category_in_amounts)
  then obtain v where v: "map_of (foldl amount_step [] es) c = Some v"
    by (metis map_of_eq_None_iff not_Some_eq)
  then have "get_or_zero (foldl amount_step [] es) c = v"
    by (simp add: get_or_zero_def)
  then have "v = sum_list (amounts_of c es)"
    by (simp add: get_or_zero_foldl get_or_zero_empty)
  with v False show ?thesis by simp
qed

lemma keys_add_monthly:
  "map fst (add_monthly k c a md) = (if k \<in> fst ` set md then map fst md else map fst md @ [k])"
proof (induction md)
  case Nil
  then show ?case by simp
next
  case (Cons p md)
  obtain k' v where p: "p = (k', v)" by (cases p)
  show ?case unfolding p using Cons.IH by (cases "k' = k") simp_all
qed

lemma map_of_add_monthly:
  "map_of (add_monthly k c a md) k' =
     (if k' = k then Some (add_amount c a (case map_of md k of None \<Rightarrow> [] | Some v \<Rightarrow> v))
      else map_of md k')"
  by (induction md) auto

lemma keys_monthly_step:
  "map fst (monthly_step md e) =
     (case date e of
        None \<Rightarrow> map fst md
      | Some d \<Rightarrow> if month_of d \<in> set (map fst md) then map fst md else map fst md @ [month_of d])"
  by (cases "date e") (simp_all add: monthly_step_def keys_add_monthly month_of_def)

lemma keys_foldl_monthly:
  "map fst (foldl monthly_step md es) =
     foldl (\<lambda>acc e. case date e of
                       None \<Rightarrow> acc
                     | Some d \<Rightarrow> if month_of d \<in> set acc then acc else acc @ [month_of d])
           (map fst md) es"
proof (induction es arbitrary: md)
  case Nil
  then show ?case by simp
next
  case (Cons e es)
  show ?case
    by (simp only: foldl_Cons Cons.IH keys_monthly_step)
qed

lemma keys_monthly_data: "map fst (monthly_data_of es) = months_present es"
  by (simp add: monthly_data_of_def months_present_def keys_foldl_monthly)

lemma distinct_present_step:
  "distinct acc \<Longrightarrow>
   distinct (foldl (\<lambda>acc e. case date e of
                       None \<Rightarrow> acc
                     | Some d \<Rightarrow> if month_of d \<in> set acc then acc else acc @ [month_of d])
           acc es)"
proof (induction es arbitrary: acc)
  case Nil
  then show ?case by simp
next
  case (Cons e es)
  show ?case
    using Cons.prems by (cases "date e") (auto intro!: Cons.IH)
qed

lemma distinct_months_present: "distinct (months_present es)"
  unfolding months_present_def by (rule distinct_present_step) simp

lemma set_present_step:
  "set (foldl (\<lambda>acc e. case date e of
                       None \<Rightarrow> acc
                     | Some d \<Rightarrow> if month_of d \<in> set acc then acc else acc @ [month_of d])
           acc es) = set acc \<union> {k. \<exists>e \<in> set es. in_month k e}"
proof (induction es arbitrary: acc)
  case Nil
  then show ?case by simp
next
  case (Cons e es)
  show ?case
    by (cases "date e") (auto simp: Cons.IH in_month_def)
qed

lemma set_months_present: "set (months_present es) = {k. \<exists>e \<in> set es. in_month k e}"
  by (simp add: months_present_def set_present_step)

lemma map_of_foldl_monthly:
  "map_of (foldl monthly_step md es) k =
     (case map_of md k of
        None \<Rightarrow> (if filter (in_month k) es = [] then None
                  else Some (foldl amount_step [] (filter (in_month k) es)))
      | Some v \<Rightarrow> Some (foldl amount_step v (filter (in_month k) es)))"
proof (induction es arbitrary: md)
  case Nil
  then show ?case by (simp split: option.splits)
next
  case (Cons e es)
  have ih: "map_of (foldl monthly_step md (e # es)) k =
     (case map_of (monthly_step md e) k of
        None \<Rightarrow> (if filter (in_month k) es = [] then None
                  else Some (foldl amount_step [] (filter (in_month k) es)))
      | Some v \<Rightarrow> Some (foldl amount_step v (filter (in_month k) es)))"
    by (simp only: foldl_Cons Cons.IH)
  show ?case
  proof (cases "date e")
    case None
    then have m: "monthly_step md e = md"
      and f: "filter (in_month k) (e # es) = filter (in_month k) es"
      by (simp_all add: monthly_step_def in_month_def)
    show ?thesis unfolding ih m f by simp
  next
    case (Some d)
    then have st: "monthly_step md e = add_monthly (month_of d) (category e) (amount e) md"
      and im: "in_month k e \<longleftrightarrow> month_of d = k"
      by (simp_all add: monthly_step_def in_month_def month_of_def)
    show ?thesis
    proof (cases "month_of d = k")
      case True
      with im have f: "filter (in_month k) (e # es) = e # filter (in_month k) es" by simp
      show ?thesis
        unfolding ih st f using True
        by (simp add: map_of_add_monthly split: option.splits)
    next
      case False
      with im have f: "filter (in_month k) (e # es) = filter (in_month k) es" by simp
      show ?thesis
        unfolding ih st f using False
        by (simp add: map_of_add_monthly)
    qed
  qed
qed

lemma map_of_monthly_data:
  "map_of (monthly_data_of es) k =
     (if filter (in_month k) es = [] then None
      else Some (foldl amount_step [] (filter (in_month k) es)))"
  by (simp add: monthly_data_of_def map_of_foldl_monthly)

lemma alist_by_keys:
  "distinct (map fst xs) \<Longrightarrow> xs = map (\<lambda>k. (k, the (map_of xs k))) (map fst xs)"
proof (induction xs)
  case Nil
  then show ?case by simp
next
  case (Cons p xs)
  obtain k v where p: "p = (k, v)" by (cases p)
  from Cons.prems have k: "k \<notin> fst ` set xs" and d: "distinct (map fst xs)"
    by (simp_all add: p)
  have "map (\<lambda>k'. (k', the (map_of ((k, v) # xs) k'))) (map fst xs)
          = map (\<lambda>k'. (k', the (map_of xs k'))) (map fst xs)"
    using k by (intro map_cong) auto
  with Cons.IH [OF d] show ?case by (simp add: p)
qed

lemma monthly_data_eq:
  "monthly_data_of es =
     map (\<lambda>k. (k, foldl amount_step [] (filter (in_month k) es))) (months_present es)"
proof -
  have d: "distinct (map fst (monthly_data_of es))"
    by (simp add: keys_monthly_data distinct_months_present)
  have "map (\<lambda>k. (k, the (map_of (monthly_data_of es) k))) (months_present es)
          = map (\<lambda>k. (k, foldl amount_step [] (filter (in_month k) es))) (months_present es)"
  proof (rule map_cong [OF refl])
    fix k assume "k \<in> set (months_present es)"
    then have "filter (in_month k) es \<noteq> []"
      by (auto simp: set_months_present filter_empty_conv)
    then show "(k, the (map_of (monthly_data_of es) k))
                 = (k, foldl amount_step [] (filter (in_month k) es))"
      by (simp add: map_of_monthly_data)
  qed
  with alist_by_keys [OF d] show ?thesis
    by (simp add: keys_monthly_data)
qed

lemma category_points_eq:
  "category_points start (monthly_data_of es) c = spec_points start c es"
proof -
  have "List.map_filter
          (\<lambda>(k, month_data). case map_of month_data c of
                                None \<Rightarrow> None
                              | Some v \<Rightarrow> Some (real_of_int (months_since_start start k), v))
          (map (\<lambda>k. (k, foldl amount_step [] (filter (in_month k) es))) ks)
        = map (\<lambda>k. (real_of_int (months_since_start start k), month_total k c es))
            (filter (\<lambda>k. month_amounts k c es \<noteq> []) ks)" for ks
    by (induction ks)
       (simp_all add: List.map_filter_simps map_of_foldl_amounts amounts_of_filter_month
          month_total_def)
  then show ?thesis
    by (simp add: category_points_def spec_points_def monthly_data_eq)
qed













lemma fit_points:
  assumes "pts \<noteq> []"
  shows "linear_regression_fit (map fst pts) (map snd pts) = Inr (ols_slope pts, ols_intercept pts)"
proof -
  have z: "zip (map fst pts) (map snd pts) = pts"
    by (simp add: zip_map_fst_snd)
  have "(\<Sum>(x, v)\<leftarrow>pts. (x - xm) * (v - ym)) = (\<Sum>p\<leftarrow>pts. (fst p - xm) * (snd p - ym))" for xm ym :: real
    by (induction pts) auto
  moreover have "(\<Sum>x\<leftarrow>map fst pts. (x - xm) ^ 2) = (\<Sum>p\<leftarrow>pts. (fst p - xm) ^ 2)" for xm :: real
    by (simp add: comp_def)
  ultimately show ?thesis
    using assms
    by (simp add: linear_regression_fit_def z ols_slope_def ols_intercept_def Let_def)
qed

lemma predict_category_eq:
  "predict_category start target (monthly_data_of es) c =
     spec_forecast (spec_points start c es) (real_of_int (months_since_start start (month_of target)))"
proof (cases "spec_points start c es = []")
  case True
  then show ?thesis
    by (simp add: predict_category_def category_points_eq spec_forecast_def)
next
  case False
  show ?thesis
  proof (cases "length (spec_points start c es) < 2")
    case True
    with False show ?thesis
      by (simp add: predict_category_def category_points_eq spec_forecast_def np_mean_def)
  next
    case long: False
    with False show ?thesis
      by (simp add: predict_category_def category_points_eq spec_forecast_def fit_points
          linear_regression_predict_def month_of_def)
  qed
qed

lemma key_less_trans: "key_less a b \<Longrightarrow> key_less b c \<Longrightarrow> key_less a c"
  by (auto simp: key_less_def)

lemma key_less_total: "\<not> key_less a b \<Longrightarrow> \<not> key_less b a \<Longrightarrow> a = b"
  by (cases a, cases b) (auto simp: key_less_def)

lemma key_less_irrefl: "\<not> key_less a a"
  by (simp add: key_less_def)

lemma fold_min_key:
  "fold (\<lambda>x m. if key_less x m then x else m) ks k \<in> insert k (set ks)
   \<and> \<not> key_less k (fold (\<lambda>x m. if key_less x m then x else m) ks k)
   \<and> (\<forall>x \<in> set ks. \<not> key_less x (fold (\<lambda>x m. if key_less x m then x else m) ks k))"
proof (induction ks arbitrary: k)
  case Nil
  then show ?case by (simp add: key_less_irrefl)
next
  case (Cons x ks)
  let ?k' = "if key_less x k then x else k"
  let ?r = "fold (\<lambda>x m. if key_less x m then x else m) ks ?k'"
  from Cons.IH [of ?k'] have mem: "?r \<in> insert ?k' (set ks)"
    and low: "\<not> key_less ?k' ?r" and rest: "\<forall>y \<in> set ks. \<not> key_less y ?r"
    by blast+
  have r: "fold (\<lambda>x m. if key_less x m then x else m) (x # ks) k = ?r" by simp
  have "\<not> key_less k ?r \<and> \<not> key_less x ?r"
  proof (cases "key_less x k")
    case True
    with low have "\<not> key_less x ?r" by simp
    moreover from this True have "\<not> key_less k ?r"
      using key_less_trans by blast
    ultimately show ?thesis by simp
  next
    case False
    with low have nk: "\<not> key_less k ?r" by simp
    have "\<not> key_less x ?r"
    proof
      assume xr: "key_less x ?r"
      show False
      proof (cases "key_less ?r k")
        case True
        with xr have "key_less x k" by (rule key_less_trans)
        with False show False by simp
      next
        case nr: False
        with nk have "k = ?r" by (rule key_less_total)
        with xr False show False by simp
      qed
    qed
    with nk show ?thesis by simp
  qed
  with mem rest show ?case
    unfolding r by (auto split: if_splits)
qed

lemma min_key_earliest:
  assumes "ks \<noteq> []"
  shows "\<exists>start. min_key ks = Inr start \<and> start \<in> set ks \<and> (\<forall>k \<in> set ks. \<not> key_less k start)"
proof -
  from assms obtain k rest where ks: "ks = k # rest" by (cases ks) auto
  show ?thesis
    unfolding ks using fold_min_key [of rest k] by auto
qed

lemma map_of_map_filter:
  "map_of (List.map_filter (\<lambda>c. map_option (Pair c) (f c)) ks) c
     = (if c \<in> set ks then f c else None)"
  by (induction ks) (auto simp: List.map_filter_simps split: option.splits)

lemma all_categories_points:
  "c \<in> set (concat (map (\<lambda>(k, month_data). map fst month_data) (monthly_data_of es)))
     \<longleftrightarrow> spec_points start c es \<noteq> []"
proof -
  have "c \<in> fst ` set (foldl amount_step [] (filter (in_month k) es))
          \<longleftrightarrow> month_amounts k c es \<noteq> []" for k
  proof -
    have "c \<in> fst ` set (foldl amount_step [] (filter (in_month k) es))
            \<longleftrightarrow> c \<in> category ` set (filter (in_month k) es)"
      by (simp only: keys_foldl_amounts list.set image_empty Un_empty_left)
    also have "\<dots> \<longleftrightarrow> amounts_of c (filter (in_month k) es) \<noteq> []"
      by (rule category_in_amounts)
    finally show ?thesis
      by (simp only: amounts_of_filter_month)
  qed
  then have "c \<in> set (concat (map (\<lambda>(k, month_data). map fst month_data) (monthly_data_of es)))
          \<longleftrightarrow> (\<exists>k \<in> set (months_present es). month_amounts k c es \<noteq> [])"
    by (simp add: monthly_data_eq comp_def)
  also have "\<dots> \<longleftrightarrow> spec_points start c es \<noteq> []"
    by (auto simp: spec_points_def filter_empty_conv)
  finally show ?thesis .
qed

lemma predict_run:
  "\<exists>preds. predict_monthly_expense today es target_month = Inr preds
     \<and> (months_present es = [] \<longrightarrow> preds = [])
     \<and> (months_present es \<noteq> [] \<longrightarrow>
          (\<exists>start. min_key (months_present es) = Inr start
             \<and> (\<forall>c. map_of preds c =
                   spec_forecast (spec_points start c es)
                     (real_of_int (months_since_start start (month_of (target_of today target_month)))))))"
proof (cases "months_present es = []")
  case True
  then have "monthly_data_of es = []"
    using keys_monthly_data [of es] by simp
  then show ?thesis
    using True by (simp add: predict_monthly_expense_def Let_def)
next
  case False
  then have md: "monthly_data_of es \<noteq> []"
    using keys_monthly_data [of es] by auto
  then have ne: "es \<noteq> []"
    by (auto simp: monthly_data_of_def)
  from min_key_earliest [OF False] obtain start where
    start: "min_key (months_present es) = Inr start" by blast
  let ?t = "target_of today target_month"
  let ?cats = "concat (map (\<lambda>(k, month_data). map fst month_data) (monthly_data_of es))"
  let ?preds = "List.map_filter
                  (\<lambda>c. map_option (Pair c) (predict_category start ?t (monthly_data_of es) c))
                  (remdups ?cats)"
  have run: "predict_monthly_expense today es target_month = Inr ?preds"
    using ne md start
    by (simp add: predict_monthly_expense_def Let_def keys_monthly_data bind_result_def target_of_def)
  have "map_of ?preds c =
          spec_forecast (spec_points start c es) (real_of_int (months_since_start start (month_of ?t)))" for c
    using all_categories_points [of c es start]
    by (simp add: map_of_map_filter predict_category_eq spec_forecast_def)
  with run start False show ?thesis by blast
qed

lemmas forecast_eval =
  predict_monthly_expense_def dated_def monthly_data_of_def monthly_step_def
  key_less_def bind_result_def predict_category_def category_points_def List.map_filter_simps
  months_since_start_def linear_regression_fit_def linear_regression_predict_def np_mean_def Let_def

lemma rising_run:
  "predict_monthly_expense today rising_sample (Some first_of_april) = Inr [(''food'', 400)]"
  by (simp add: forecast_eval rising_sample_def first_of_april_def)

lemma falling_run:
  "predict_monthly_expense today falling_sample (Some first_of_june) = Inr [(''food'', 0)]"
  by (simp add: forecast_eval falling_sample_def first_of_june_def)

lemma single_run:
  "predict_monthly_expense today [dated 2024 1 10 ''food'' 50] target_month = Inr [(''food'', 50)]"
  by (simp add: forecast_eval)

lemma predict_explicit:
  assumes "months_present es \<noteq> []"
  shows "\<exists>start cats. min_key (months_present es) = Inr start
           \<and> predict_monthly_expense today es target_month =
               Inr (List.map_filter
                      (\<lambda>c. map_option (Pair c)
                             (spec_forecast (spec_points start c es)
                                (real_of_int (months_since_start start
                                   (month_of (target_of today target_month))))))
                      cats)"
proof -
  from assms have md: "monthly_data_of es \<noteq> []"
    using keys_monthly_data [of es] by auto
  then have ne: "es \<noteq> []"
    by (auto simp: monthly_data_of_def)
  from min_key_earliest [OF assms] obtain start where
    start: "min_key (months_present es) = Inr start" by blast
  have "predict_monthly_expense today es target_month =
      Inr (List.map_filter
             (\<lambda>c. map_option (Pair c)
                    (spec_forecast (spec_points start c es)
                       (real_of_int (months_since_start start
                          (month_of (target_of today target_month))))))
             (remdups (concat (map (\<lambda>(k, month_data). map fst month_data) (monthly_data_of es)))))"
    using ne md start
    by (simp add: predict_monthly_expense_def Let_def keys_monthly_data bind_result_def
        target_of_def predict_category_eq)
  with start show ?thesis by blast
qed

lemma in_map_filter:
  "(c, v) \<in> set (List.map_filter (\<lambda>c. map_option (Pair c) (f c)) ks) \<Longrightarrow> f c = Some v"
  by (induction ks) (auto simp: List.map_filter_simps split: option.splits)

lemma spec_points_nonneg:
  "amounts_nonneg es \<Longrightarrow> p \<in> set (spec_points start c es) \<Longrightarrow> 0 \<le> snd p"
  by (auto simp: spec_points_def month_total_nonneg)

lemma spec_forecast_nonneg:
  assumes "\<forall>p \<in> set pts. 0 \<le> snd p" "spec_forecast pts t = Some v"
  shows "0 \<le> v"
proof -
  have "0 \<le> sum_list (map snd pts)"
    using assms(1) by (intro sum_list_nonneg) auto
  then have "0 \<le> sum_list (map snd pts) / real (length pts)"
    by simp
  with assms(2) show ?thesis
    by (auto simp: spec_forecast_def split: if_splits)
qed

text \<open>
  Claim C8. With non-negative amounts, every value in the mapping returned by
  predict_monthly_expense is non-negative, for every target month.
\<close>

theorem forecast_nonneg:
  assumes "amounts_nonneg expenses"
    and "predict_monthly_expense today expenses target_month = Inr preds"
    and "(c, v) \<in> set preds"
  shows "0 \<le> v"
proof (cases "months_present expenses = []")
  case True
  with predict_run [of today expenses target_month] assms(2,3) show ?thesis by auto
next
  case False
  from predict_explicit [OF False, of today target_month] assms(2) obtain start cats where
    "preds = List.map_filter
               (\<lambda>c. map_option (Pair c)
                      (spec_forecast (spec_points start c expenses)
                         (real_of_int (months_since_start start
                            (month_of (target_of today target_month))))))
               cats"
    by auto
  with assms(3) have "spec_forecast (spec_points start c expenses)
                        (real_of_int (months_since_start start
                           (month_of (target_of today target_month)))) = Some v"
    using in_map_filter by fast
  moreover have "\<forall>p \<in> set (spec_points start c expenses). 0 \<le> snd p"
    using spec_points_nonneg [OF assms(1)] by blast
  ultimately show ?thesis by (rule spec_forecast_nonneg [rotated])
qed

theorem forecast_nonneg_witness:
  "amounts_nonneg falling_sample
   \<and> predict_monthly_expense first_of_june falling_sample (Some first_of_june) = Inr [(''food'', 0)]
   \<and> (''food'', 0) \<in> set [(''food'', 0 :: real)]
   \<and> (0 :: real) \<le> 0"
proof -
  have nn: "amounts_nonneg falling_sample"
    by (simp add: amounts_nonneg_def falling_sample_def dated_def)
  have m: "(''food'', 0) \<in> set [(''food'', 0 :: real)]"
    by simp
  show ?thesis
    using nn m falling_run forecast_nonneg [OF nn falling_run m] by simp
qed

lemma month_index_injective:
  assumes "1 \<le> snd k" "snd k \<le> 12" "1 \<le> snd k'" "snd k' \<le> 12"
    and "months_since_start start k = months_since_start start k'"
  shows "k = k'"
proof -
  from assms(5) have e: "(fst k - fst k') * 12 = snd k' - snd k"
    by (simp add: months_since_start_def algebra_simps)
  with assms(1-4) have "fst k = fst k'" by presburger
  with e show ?thesis by (simp add: prod_eq_iff)
qed

lemma present_months_in_range:
  assumes "dates_valid es" "k \<in> set (months_present es)"
  shows "1 \<le> snd k \<and> snd k \<le> 12"
proof -
  from assms(2) obtain e where e: "e \<in> set es" "in_month k e"
    by (auto simp: set_months_present)
  then obtain d where d: "date e = Some d" "month_of d = k"
    by (auto simp: in_month_def split: option.splits)
  with assms(1) e(1) have "valid_date d"
    by (auto simp: dates_valid_def list_all_iff)
  with d(2) show ?thesis
    by (auto simp: valid_date_def month_of_def)
qed

lemma spec_points_distinct:
  assumes "dates_valid es"
  shows "distinct (map fst (spec_points start c es))"
proof -
  let ?ks = "filter (\<lambda>k. month_amounts k c es \<noteq> []) (months_present es)"
  have d: "distinct ?ks"
    by (simp add: distinct_months_present)
  have inj: "inj_on (\<lambda>k. real_of_int (months_since_start start k)) (set ?ks)"
  proof (rule inj_onI)
    fix k k' assume k: "k \<in> set ?ks" "k' \<in> set ?ks"
      and eq: "real_of_int (months_since_start start k) = real_of_int (months_since_start start k')"
    from k have "1 \<le> snd k \<and> snd k \<le> 12" "1 \<le> snd k' \<and> snd k' \<le> 12"
      using present_months_in_range [OF assms] by auto
    moreover from eq have "months_since_start start k = months_since_start start k'" by simp
    ultimately show "k = k'" using month_index_injective by blast
  qed
  have "map fst (spec_points start c es) = map (\<lambda>k. real_of_int (months_since_start start k)) ?ks"
    by (simp add: spec_points_def comp_def)
  with d inj show ?thesis by (simp add: distinct_map)
qed






section \<open>Parsing dates\<close>

lemma digit_range: "0 \<le> n \<Longrightarrow> n \<le> 9 \<Longrightarrow> n \<in> {0, 1, 2, 3, 4, 5, 6, 7, 8, 9 :: int}"
  by simp presburger

lemma digit_roundtrip:
  assumes "0 \<le> n" "n \<le> 9"
  shows "digit_value (digit_char n) = Some n"
  using digit_range [OF assms] by (auto simp: digit_char_def digit_value_def)

lemma digit_char_plain:
  assumes "0 \<le> n" "n \<le> 9"
  shows "\<not> is_space (digit_char n)" "digit_char n \<noteq> CHR ''T''" "digit_char n \<noteq> CHR '' ''"
  using digit_range [OF assms] by (auto simp: digit_char_def is_space_def)

lemma decimal4:
  "((y div 1000 * 10 + y div 100 mod 10) * 10 + y div 10 mod 10) * 10 + y mod 10 = (y::int)"
proof -
  define q1 r1 q2 r2 q3 r3
    where "q1 = y div 10" and "r1 = y mod 10" and "q2 = y div 100" and "r2 = y div 10 mod 10"
      and "q3 = y div 1000" and "r3 = y div 100 mod 10"
  have a: "y div 100 = y div 10 div 10"
    using zdiv_zmult2_eq [of 10 y 10] by simp
  have b: "y div 1000 = y div 100 div 10"
    using zdiv_zmult2_eq [of 10 y 100] by simp
  have e1: "q1 * 10 + r1 = y"
    unfolding q1_def r1_def by (rule div_mult_mod_eq)
  have e2: "q2 * 10 + r2 = q1"
    unfolding q1_def q2_def r2_def a by (rule div_mult_mod_eq)
  have e3: "q3 * 10 + r3 = q2"
    unfolding q2_def q3_def r3_def b by (rule div_mult_mod_eq)
  have "((q3 * 10 + r3) * 10 + r2) * 10 + r1 = y"
    unfolding e3 e2 e1 ..
  then show ?thesis
    unfolding q1_def r1_def q2_def r2_def q3_def r3_def .
qed

lemma small_quotient:
  assumes "0 \<le> (y::int)" "y \<le> n * 10 + 9" "0 \<le> n"
  shows "0 \<le> y div 10" "y div 10 \<le> n"
proof -
  show "0 \<le> y div 10" using assms(1) by simp
  have "y div 10 \<le> (n * 10 + 9) div 10"
    using assms(2) by (intro zdiv_mono1) simp_all
  also have "\<dots> = n" by simp
  finally show "y div 10 \<le> n" .
qed

lemma digits4:
  assumes "0 \<le> y" "y \<le> 9999"
  shows "digits_value [digit_char (y div 1000), digit_char (y div 100 mod 10),
                       digit_char (y div 10 mod 10), digit_char (y mod 10)] 0 = Some y"
proof -
  have "y div 1000 \<le> 9999 div 1000"
    using assms(2) by (intro zdiv_mono1) simp_all
  then have a: "0 \<le> y div 1000" "y div 1000 \<le> 9" using assms(1) by simp_all
  have b: "0 \<le> y div 100 mod 10" "y div 100 mod 10 \<le> 9" by simp_all
  have c: "0 \<le> y div 10 mod 10" "y div 10 mod 10 \<le> 9" by simp_all
  have d: "0 \<le> y mod 10" "y mod 10 \<le> 9" by simp_all
  have "digits_value [digit_char (y div 1000), digit_char (y div 100 mod 10),
                      digit_char (y div 10 mod 10), digit_char (y mod 10)] 0
          = Some (((y div 1000 * 10 + y div 100 mod 10) * 10 + y div 10 mod 10) * 10 + y mod 10)"
    by (simp only: digits_value.simps digit_roundtrip [OF a] digit_roundtrip [OF b]
        digit_roundtrip [OF c] digit_roundtrip [OF d] option.case mult_zero_left add_0)
  then show ?thesis by (simp only: decimal4)
qed

lemma digits2:
  assumes "0 \<le> m" "m \<le> 99"
  shows "digits_value [digit_char (m div 10), digit_char (m mod 10)] 0 = Some m"
proof -
  have a: "0 \<le> m div 10" "m div 10 \<le> 9"
    using small_quotient [of m 9] assms by simp_all
  have b: "0 \<le> m mod 10" "m mod 10 \<le> 9" by simp_all
  have "digits_value [digit_char (m div 10), digit_char (m mod 10)] 0
          = Some (m div 10 * 10 + m mod 10)"
    by (simp only: digits_value.simps digit_roundtrip [OF a] digit_roundtrip [OF b]
        option.case mult_zero_left add_0)
  then show ?thesis by (simp only: div_mult_mod_eq)
qed

lemma mk_date_valid: "valid_date d \<Longrightarrow> mk_date (year d) (month d) (day d) = Inr d"
  by (simp add: mk_date_def valid_date_def)

lemma mk_date_result: "mk_date y m d = Inr r \<Longrightarrow> valid_date r"
  by (auto simp: mk_date_def valid_date_def split: if_splits)

lemma fromisoformat_result: "date_fromisoformat s = Inr r \<Longrightarrow> valid_date r"
  by (auto simp: date_fromisoformat_def dest: mk_date_result split: if_splits option.splits)

lemma fromisoformat_isoformat:
  assumes "valid_date d"
  shows "date_fromisoformat (isoformat d) = Inr d"
proof -
  from assms have y: "0 \<le> year d" "year d \<le> 9999" and m: "0 \<le> month d" "month d \<le> 99"
    by (simp_all add: valid_date_def)
  from assms have "day d \<le> days_in_month (year d) (month d)" "1 \<le> day d"
    by (simp_all add: valid_date_def)
  with days_in_month_bounds(2) [of "year d" "month d"] have dd: "0 \<le> day d" "day d \<le> 99"
    by simp_all
  show ?thesis
    using digits4 [OF y] digits2 [OF m] digits2 [OF dd] mk_date_valid [OF assms]
    by (simp add: date_fromisoformat_def isoformat_def)
qed

lemma isoformat_digits:
  assumes "valid_date d"
  shows "\<exists>a b c e f g h i.
           isoformat d = [digit_char a, digit_char b, digit_char c, digit_char e, CHR ''-'',
                          digit_char f, digit_char g, CHR ''-'', digit_char h, digit_char i]
           \<and> 0 \<le> a \<and> a \<le> 9 \<and> 0 \<le> b \<and> b \<le> 9 \<and> 0 \<le> c \<and> c \<le> 9 \<and> 0 \<le> e \<and> e \<le> 9
           \<and> 0 \<le> f \<and> f \<le> 9 \<and> 0 \<le> g \<and> g \<le> 9 \<and> 0 \<le> h \<and> h \<le> 9 \<and> 0 \<le> i \<and> i \<le> 9"
proof -
  from assms have y: "0 \<le> year d" "year d \<le> 9999" and m: "0 \<le> month d" "month d \<le> 99"
    by (simp_all add: valid_date_def)
  from assms have "day d \<le> days_in_month (year d) (month d)" "1 \<le> day d"
    by (simp_all add: valid_date_def)
  with days_in_month_bounds(2) [of "year d" "month d"] have dd: "0 \<le> day d" "day d \<le> 99"
    by simp_all
  have "year d div 1000 \<le> 9999 div 1000"
    using y(2) by (intro zdiv_mono1) simp_all
  then have a: "0 \<le> year d div 1000" "year d div 1000 \<le> 9" using y(1) by simp_all
  have f: "0 \<le> month d div 10" "month d div 10 \<le> 9"
    using small_quotient [of "month d" 9] m by simp_all
  have h: "0 \<le> day d div 10" "day d div 10 \<le> 9"
    using small_quotient [of "day d" 9] dd by simp_all
  have r: "0 \<le> x mod 10" "x mod 10 \<le> 9" for x :: int
    by simp_all
  show ?thesis
    unfolding isoformat_def using a f h r by blast
qed

lemma isoformat_plain:
  assumes "valid_date d"
  shows "py_strip (isoformat d) = isoformat d" "isoformat d \<noteq> []"
    "CHR ''T'' \<notin> set (isoformat d)" "CHR '' '' \<notin> set (isoformat d)"
proof -
  from isoformat_digits [OF assms] obtain a b c e f g h i where
    iso: "isoformat d = [digit_char a, digit_char b, digit_char c, digit_char e, CHR ''-'',
                          digit_char f, digit_char g, CHR ''-'', digit_char h, digit_char i]"
    and r: "0 \<le> a" "a \<le> 9" "0 \<le> b" "b \<le> 9" "0 \<le> c" "c \<le> 9" "0 \<le> e" "e \<le> 9"
      "0 \<le> f" "f \<le> 9" "0 \<le> g" "g \<le> 9" "0 \<le> h" "h \<le> 9" "0 \<le> i" "i \<le> 9"
    by blast
  note p = digit_char_plain [OF r(1,2)] digit_char_plain [OF r(3,4)] digit_char_plain [OF r(5,6)]
    digit_char_plain [OF r(7,8)] digit_char_plain [OF r(9,10)] digit_char_plain [OF r(11,12)]
    digit_char_plain [OF r(13,14)] digit_char_plain [OF r(15,16)]
  show "py_strip (isoformat d) = isoformat d"
    unfolding iso py_strip_def using p by simp
  show "isoformat d \<noteq> []" unfolding iso by simp
  show "CHR ''T'' \<notin> set (isoformat d)" unfolding iso using p by simp
  show "CHR '' '' \<notin> set (isoformat d)" unfolding iso using p by simp
qed

lemma parse_isoformat:
  assumes "valid_date d"
  shows "parse_date dtf (StrValue (isoformat d)) = Inr d"
  using isoformat_plain [OF assms] fromisoformat_isoformat [OF assms]
  by (simp add: parse_date_def)

lemma parse_result_valid:
  assumes "\<forall>s r. dtf s = Inr r \<longrightarrow> valid_date r"
    and "\<forall>x. inp = DateValue x \<longrightarrow> valid_date x"
    and "parse_date dtf inp = Inr d"
  shows "valid_date d"
proof (cases inp)
  case (DateValue x)
  with assms(2,3) show ?thesis by (simp add: parse_date_def)
next
  case NoneValue
  with assms(3) show ?thesis by (simp add: parse_date_def)
next
  case (StrValue raw)
  with assms(3) have "(\<exists>s. date_fromisoformat s = Inr d) \<or> (\<exists>s. dtf s = Inr d)"
    by (auto simp: parse_date_def Let_def split: if_splits sum.splits)
  with assms(1) fromisoformat_result show ?thesis by blast
qed

lemma plain_shape:
  "parse_date dtf (StrValue ''2024-03-05'') = Inr \<lparr> year = 2024, month = 3, day = 5 \<rparr>"
  by (simp add: parse_date_def py_strip_def is_space_def date_fromisoformat_def digit_value_def
      mk_date_def days_in_month_def)

lemma t_shape:
  "parse_date dtf (StrValue ''2024-03-05T00:00:00'') = Inr \<lparr> year = 2024, month = 3, day = 5 \<rparr>"
  by (simp add: parse_date_def py_strip_def is_space_def split_head_def date_fromisoformat_def
      digit_value_def mk_date_def days_in_month_def)

lemma space_shape:
  "parse_date dtf (StrValue ''2024-03-05 00:00:00'') = Inr \<lparr> year = 2024, month = 3, day = 5 \<rparr>"
  by (simp add: parse_date_def py_strip_def is_space_def split_head_def date_fromisoformat_def
      digit_value_def mk_date_def days_in_month_def)

text \<open>
  Claim C6. parse_date maps "2024-03-05", "2024-03-05T00:00:00" and
  "2024-03-05 00:00:00" to the date 2024-03-05; it returns a date value unchanged; and
  parsing the ISO string of any date it returned gives that date again.
\<close>

theorem parse_date_shapes_and_idempotence:
  "parse_date dtf (StrValue ''2024-03-05'') = Inr \<lparr> year = 2024, month = 3, day = 5 \<rparr>
   \<and> parse_date dtf (StrValue ''2024-03-05T00:00:00'') = Inr \<lparr> year = 2024, month = 3, day = 5 \<rparr>
   \<and> parse_date dtf (StrValue ''2024-03-05 00:00:00'') = Inr \<lparr> year = 2024, month = 3, day = 5 \<rparr>
   \<and> parse_date dtf (DateValue d) = Inr d
   \<and> (returns_valid_dates dtf \<and> valid_input inp \<and> parse_date dtf inp = Inr r
       \<longrightarrow> parse_date dtf (StrValue (isoformat r)) = Inr r)"
proof -
  have "parse_date dtf (DateValue d) = Inr d"
    by (simp add: parse_date_def)
  moreover have "parse_date dtf (StrValue (isoformat r)) = Inr r"
    if "returns_valid_dates dtf" and "valid_input inp" and "parse_date dtf inp = Inr r"
  proof -
    from that(1) have "\<forall>s r. dtf s = Inr r \<longrightarrow> valid_date r"
      by (simp add: returns_valid_dates_def)
    moreover from that(2) have "\<forall>x. inp = DateValue x \<longrightarrow> valid_date x"
      by (auto simp: valid_input_def)
    ultimately have "valid_date r"
      using that(3) by (rule parse_result_valid)
    then show ?thesis by (rule parse_isoformat)
  qed
  ultimately show ?thesis
    using plain_shape [of dtf] t_shape [of dtf] space_shape [of dtf] by blast
qed

theorem parse_date_shapes_and_idempotence_witness:
  "returns_valid_dates datetime_rejects
   \<and> valid_input (StrValue ''2024-03-05T00:00:00'')
   \<and> parse_date datetime_rejects (StrValue ''2024-03-05T00:00:00'')
       = Inr \<lparr> year = 2024, month = 3, day = 5 \<rparr>
   \<and> isoformat \<lparr> year = 2024, month = 3, day = 5 \<rparr> = ''2024-03-05''
   \<and> parse_date datetime_rejects (StrValue (isoformat \<lparr> year = 2024, month = 3, day = 5 \<rparr>))
       = Inr \<lparr> year = 2024, month = 3, day = 5 \<rparr>"
proof -
  have h1: "returns_valid_dates datetime_rejects"
    by (simp add: returns_valid_dates_def datetime_rejects_def)
  have h2: "valid_input (StrValue ''2024-03-05T00:00:00'')"
    by (simp add: valid_input_def)
  have h3: "parse_date datetime_rejects (StrValue ''2024-03-05T00:00:00'')
              = Inr \<lparr> year = 2024, month = 3, day = 5 \<rparr>"
    by (rule t_shape)
  have iso: "isoformat \<lparr> year = 2024, month = 3, day = 5 \<rparr> = ''2024-03-05''"
    by (simp add: isoformat_def digit_char_def)
  from parse_date_shapes_and_idempotence
         [of datetime_rejects _ "StrValue ''2024-03-05T00:00:00''"
             "\<lparr> year = 2024, month = 3, day = 5 \<rparr>"] h1 h2 h3
  have "parse_date datetime_rejects (StrValue (isoformat \<lparr> year = 2024, month = 3, day = 5 \<rparr>))
          = Inr \<lparr> year = 2024, month = 3, day = 5 \<rparr>"
    by blast
  with h1 h2 h3 iso show ?thesis by blast
qed

text \<open>
  Claim C7 asks for an error that carries the input string in every branch. When all
  parsers reject the string, the branch for a T and the branch for a space end in the
  library's error about the text before the separator; only the last branch builds an
  error from the input string.
\<close>

theorem parse_date_error_drops_input:
  "parse_date dtf (StrValue ''tomorrowT10:00'')
     = (case dtf ''tomorrowT10:00'' of
          Inr d \<Rightarrow> Inr d
        | Inl e \<Rightarrow> Inl (InvalidIsoformat ''tomorrow''))
   \<and> parse_date dtf (StrValue ''next week'')
     = (case dtf ''next week'' of
          Inr d \<Rightarrow> Inr d
        | Inl e \<Rightarrow> Inl (InvalidIsoformat ''next''))
   \<and> parse_date dtf (StrValue ''tomorrow'')
     = Inl (CannotParseDate ''tomorrow'' (InvalidIsoformat ''tomorrow''))"
  by (simp add: parse_date_def py_strip_def is_space_def split_head_def replace_Z_def
      date_fromisoformat_def Let_def split: sum.splits)

section \<open>The outliers and the forecast with the arithmetic as parameters\<close>

lemma stats_entry_with_nonempty:
  "amounts \<noteq> [] \<Longrightarrow> stats_entry_with N amounts = Inr (entry_with N amounts)"
  by (cases amounts) (simp_all add: stats_entry_with_def entry_with_def computed_std_def)

lemma stats_loop_with_nonempty:
  "\<forall>p \<in> set d. snd p \<noteq> [] \<Longrightarrow>
   stats_loop_with N d = Inr (map (\<lambda>p. (fst p, entry_with N (snd p))) d)"
proof (induction d)
  case Nil
  then show ?case by simp
next
  case (Cons p d)
  obtain c v where p: "p = (c, v)" by (cases p)
  from Cons show ?case by (simp add: p stats_entry_with_nonempty)
qed

lemma calculate_category_stats_with_eq:
  "calculate_category_stats_with N es =
     Inr (map (\<lambda>p. (fst p, entry_with N (snd p))) (category_data es))"
proof (cases "es = []")
  case True
  then show ?thesis by (simp add: calculate_category_stats_with_def category_data_def)
next
  case False
  have "\<forall>p \<in> set (category_data es). snd p \<noteq> []"
    unfolding category_data_def by (rule nonempty_foldl_groups) simp
  then show ?thesis
    using False by (simp add: calculate_category_stats_with_def stats_loop_with_nonempty)
qed

lemma map_of_stats_with:
  "map_of (map (\<lambda>p. (fst p, entry_with N (snd p))) (category_data es)) c =
     (if amounts_of c es = [] then None else Some (entry_with N (amounts_of c es)))"
proof -
  have "map_of (map (\<lambda>p. (fst p, entry_with N (snd p))) d) c = map_option (entry_with N) (map_of d c)"
    for d :: "(string \<times> real list) list"
    by (induction d) auto
  then show ?thesis by (simp add: map_of_category_data)
qed

lemma outliers_loop_with_eq:
  assumes "\<forall>e \<in> set xs. map_of stats (category e) = Some (entry_with N (amounts_of (category e) es))"
  shows "outliers_loop_with N stats xs =
           map (computed_outlier N es)
               (filter (\<lambda>e. amount e > computed_threshold N (category e) es) xs)"
  using assms
proof (induction xs)
  case Nil
  then show ?case by simp
next
  case (Cons x xs)
  then show ?case
    by (simp add: entry_with_def computed_outlier_def computed_threshold_def Let_def)
qed

lemma detect_outliers_with_eq:
  "detect_outliers_with N es =
     Inr (map (computed_outlier N es)
            (filter (\<lambda>e. amount e > computed_threshold N (category e) es) es))"
proof (cases "es = []")
  case True
  then show ?thesis by (simp add: detect_outliers_with_def)
next
  case False
  let ?stats = "map (\<lambda>p. (fst p, entry_with N (snd p))) (category_data es)"
  have "\<forall>e \<in> set es. map_of ?stats (category e) = Some (entry_with N (amounts_of (category e) es))"
    by (simp add: map_of_stats_with amounts_of_member)
  then have "outliers_loop_with N ?stats es =
      map (computed_outlier N es)
          (filter (\<lambda>e. amount e > computed_threshold N (category e) es) es)"
    by (rule outliers_loop_with_eq)
  then show ?thesis using False
    by (simp add: detect_outliers_with_def calculate_category_stats_with_eq)
qed

lemma computed_std_exact: "computed_std exact_numerics (amounts_of c es) = population_std c es"
  using entry_std [of c es]
  by (auto simp add: computed_std_def exact_numerics_def entry_of_def split: if_splits)

lemma computed_threshold_exact: "computed_threshold exact_numerics c es = spec_threshold c es"
proof -
  have "lib_mean exact_numerics (amounts_of c es) = category_mean c es"
    by (simp add: exact_numerics_def np_mean_def category_mean_def)
  then show ?thesis
    unfolding computed_threshold_def computed_std_exact
    by (simp add: exact_numerics_def spec_threshold_def)
qed






















text \<open>
  With exact arithmetic for the parameters, the functions with parameters are the
  functions of the first model.
\<close>

lemma detect_outliers_with_exact: "detect_outliers_with exact_numerics es = detect_outliers es"
proof -
  have "computed_outlier exact_numerics es e = spec_outlier es e" for e
    by (simp add: computed_outlier_def spec_outlier_def computed_threshold_exact
        computed_std_exact)
       (simp add: exact_numerics_def np_mean_def category_mean_def)
  then show ?thesis
    by (simp add: detect_outliers_with_eq detect_outliers_eq computed_threshold_exact)
qed

lemma add_amount_with_exact: "add_amount_with (+) c a d = add_amount c a d"
  by (induction d) auto

lemma add_monthly_with_exact: "add_monthly_with (+) k c a md = add_monthly k c a md"
  by (induction md) (auto simp: add_amount_with_exact)

lemma monthly_data_with_exact: "monthly_data_with exact_numerics es = monthly_data_of es"
proof -
  have "monthly_step_with exact_numerics = monthly_step"
    by (intro ext)
       (simp add: monthly_step_with_def monthly_step_def exact_numerics_def
          add_monthly_with_exact split: option.splits)
  then show ?thesis
    by (simp add: monthly_data_with_def monthly_data_of_def)
qed

lemma predict_category_with_exact:
  "predict_category_with exact_numerics start target md c = predict_category start target md c"
  by (simp add: predict_category_with_def predict_category_def exact_numerics_def
      exact_regress_def Let_def split: sum.splits)

lemma predict_monthly_expense_with_exact:
  "predict_monthly_expense_with exact_numerics today es target_month
     = predict_monthly_expense today es target_month"
  by (simp add: predict_monthly_expense_with_def predict_monthly_expense_def
      monthly_data_with_exact predict_category_with_exact Let_def)













lemma month_bounds_january_year_one:
  assumes "valid_date ref" "month_of ref = (1, 1)"
  shows "month_bounds ref = Inl (ValueError ''year is out of range'')"
proof -
  from assms(2) have ym: "year ref = 1" "month ref = 1"
    by (simp_all add: month_of_def)
  have "mk_date 1 1 1 = Inr (first_of (1, 1))"
    using mk_date_first [of "(1, 1)"] by simp
  moreover have "mk_date 0 12 1 = Inl (ValueError ''year is out of range'')"
    by (simp add: mk_date_def)
  ultimately show ?thesis
    by (simp add: month_bounds_def bind_result_def ym)
qed

lemma month_bounds_last_december:
  assumes "valid_date ref" "month_of ref = (9999, 12)"
  shows "month_bounds ref = Inl (OverflowError ''date value out of range'')"
proof -
  from assms(2) have ym: "year ref = 9999" "month ref = 12"
    by (simp_all add: month_of_def)
  have a: "mk_date 9999 12 1 = Inr (first_of (9999, 12))"
    using mk_date_first [of "(9999, 12)"] by simp
  have b: "mk_date 9999 11 1 = Inr (first_of (9999, 11))"
    using mk_date_first [of "(9999, 11)"] by simp
  have c: "date_sub_days (first_of (9999, 12)) 1 = Inr (last_of (9999, 11))"
    using day_before_first [of 9999 12] by simp
  have "(next_day ^^ 32) \<lparr> year = 9999, month = 12, day = 1 \<rparr>
          = \<lparr> year = 10000, month = 1, day = 2 \<rparr>"
    by (simp add: thirty_two_days_later following_month_def days_in_month_def)
  then have d: "date_add_days (first_of (9999, 12)) 32
                  = Inl (OverflowError ''date value out of range'')"
    by (simp add: date_add_days_def first_of_def)
  show ?thesis
    using a b c d by (simp add: month_bounds_def bind_result_def ym)
qed

lemma growth_raises_at_boundary:
  assumes "valid_date (target_of today current_month)" "expenses \<noteq> []"
    and "month_of (target_of today current_month) = (1, 1)
         \<or> month_of (target_of today current_month) = (9999, 12)"
  shows "\<exists>e. calculate_mom_growth today expenses current_month = Inl e"
proof -
  from assms(1,3) have "\<exists>e. month_bounds (target_of today current_month) = Inl e"
    using month_bounds_january_year_one month_bounds_last_december by blast
  then show ?thesis
    using assms(2) by (auto simp: calculate_mom_growth_def bind_result_def target_of_def)
qed

lemma year_one_valid: "valid_date year_one_january" "month_of year_one_january = (1, 1)"
  by (simp_all add: year_one_january_def valid_date_def days_in_month_def month_of_def)

lemma last_december_valid: "valid_date last_december" "month_of last_december = (9999, 12)"
  by (simp_all add: last_december_def valid_date_def days_in_month_def month_of_def)

lemma growth_raises_year_one:
  "es \<noteq> [] \<Longrightarrow> calculate_mom_growth today es (Some year_one_january)
                  = Inl (ValueError ''year is out of range'')"
  using month_bounds_january_year_one [OF year_one_valid]
  by (simp add: calculate_mom_growth_def bind_result_def)

lemma growth_raises_last_december:
  "es \<noteq> [] \<Longrightarrow> calculate_mom_growth today es (Some last_december)
                  = Inl (OverflowError ''date value out of range'')"
  using month_bounds_last_december [OF last_december_valid]
  by (simp add: calculate_mom_growth_def bind_result_def)

text \<open>
  The claim as stated covers every reference month. In January of year 1 the first day
  of the previous month is not a date, and in December of year 9999 the date 32 days
  after the first is not one: the function raises on every non-empty list.
\<close>

theorem mom_growth_boundary_counterexample:
  "calculate_mom_growth year_one_january growth_sample (Some year_one_january)
     = Inl (ValueError ''year is out of range'')
   \<and> calculate_mom_growth last_december growth_sample (Some last_december)
     = Inl (OverflowError ''date value out of range'')"
proof -
  have "growth_sample \<noteq> []" by (simp add: growth_sample_def)
  then show ?thesis
    using growth_raises_year_one growth_raises_last_december by blast
qed

text \<open>
  The claim as stated has no exception. A single record, or two records of equal
  amounts, make calculate_mom_growth raise when the reference month is the first or the
  last month of the calendar.
\<close>

theorem single_record_growth_raises_counterexample:
  "calculate_mom_growth year_one_january [dated 1 1 10 ''food'' 100] (Some year_one_january)
     = Inl (ValueError ''year is out of range'')
   \<and> calculate_mom_growth last_december constant_sample (Some last_december)
     = Inl (OverflowError ''date value out of range'')"
proof -
  have "constant_sample \<noteq> []" by (simp add: constant_sample_def)
  then show ?thesis
    using growth_raises_year_one [of "[dated 1 1 10 ''food'' 100]"] growth_raises_last_december
    by blast
qed

text \<open>
  Claim C9, as amended. On the empty list each of the four functions returns an empty
  result. On every list (so on a single record, and on records of equal amounts)
  calculate_category_stats, detect_outliers and predict_monthly_expense return a
  result, and so does calculate_mom_growth for every reference month other than
  January of year 1 and December of year 9999; in those two months it raises on every
  non-empty list.
\<close>

theorem degenerate_inputs_raise_only_at_calendar_ends:
  "calculate_category_stats [] = Inr []
   \<and> calculate_mom_growth today [] current_month = Inr []
   \<and> predict_monthly_expense today [] target_month = Inr []
   \<and> detect_outliers [] = Inr []
   \<and> (\<exists>stats. calculate_category_stats expenses = Inr stats)
   \<and> (\<exists>outliers. detect_outliers expenses = Inr outliers)
   \<and> (\<exists>preds. predict_monthly_expense today expenses target_month = Inr preds)
   \<and> (valid_date (target_of today current_month)
        \<and> month_of (target_of today current_month) \<noteq> (1, 1)
        \<and> month_of (target_of today current_month) \<noteq> (9999, 12)
       \<longrightarrow> (\<exists>g. calculate_mom_growth today expenses current_month = Inr g))
   \<and> (valid_date (target_of today current_month) \<and> expenses \<noteq> []
        \<and> (month_of (target_of today current_month) = (1, 1)
            \<or> month_of (target_of today current_month) = (9999, 12))
       \<longrightarrow> (\<exists>e. calculate_mom_growth today expenses current_month = Inl e))"
proof -
  have growth: "\<exists>g. calculate_mom_growth today expenses current_month = Inr g"
    if "valid_date (target_of today current_month)"
      and "month_of (target_of today current_month) \<noteq> (1, 1)"
      and "month_of (target_of today current_month) \<noteq> (9999, 12)"
  proof (cases "expenses = []")
    case True
    then show ?thesis by (simp add: calculate_mom_growth_def)
  next
    case False
    from month_bounds_eq [OF that] obtain bounds where
      "month_bounds (case current_month of None \<Rightarrow> today | Some d \<Rightarrow> d) = Inr bounds"
      by (auto simp: target_of_def)
    from growth_run [OF False this] show ?thesis by blast
  qed
  have "calculate_category_stats [] = Inr []"
    by (simp add: calculate_category_stats_def)
  moreover have "calculate_mom_growth today [] current_month = Inr []"
    by (simp add: calculate_mom_growth_def)
  moreover have "predict_monthly_expense today [] target_month = Inr []"
    by (simp add: predict_monthly_expense_def)
  moreover have "detect_outliers [] = Inr []"
    by (simp add: detect_outliers_def)
  moreover have "\<exists>preds. predict_monthly_expense today expenses target_month = Inr preds"
    using predict_run [of today expenses target_month] by blast
  ultimately show ?thesis
    using growth growth_raises_at_boundary [of today current_month expenses]
      calculate_category_stats_eq [of expenses] detect_outliers_eq [of expenses]
    by blast
qed

theorem degenerate_inputs_raise_only_at_calendar_ends_witness:
  "valid_date (target_of mid_february None)
   \<and> month_of (target_of mid_february None) \<noteq> (1, 1)
   \<and> month_of (target_of mid_february None) \<noteq> (9999, 12)
   \<and> (\<exists>g. calculate_mom_growth mid_february constant_sample None = Inr g)
   \<and> (\<exists>g. calculate_mom_growth mid_february [dated 2024 2 1 ''food'' 100] None = Inr g)
   \<and> valid_date (target_of year_one_january None)
   \<and> month_of (target_of year_one_january None) = (1, 1)
   \<and> (\<exists>e. calculate_mom_growth year_one_january [dated 2024 2 1 ''food'' 100] None = Inl e)"
proof -
  have h: "valid_date (target_of mid_february None)
           \<and> month_of (target_of mid_february None) \<noteq> (1, 1)
           \<and> month_of (target_of mid_february None) \<noteq> (9999, 12)"
    using mid_february_valid by (simp add: target_of_def)
  have k: "valid_date (target_of year_one_january None)
           \<and> month_of (target_of year_one_january None) = (1, 1)"
    using year_one_valid by (simp add: target_of_def)
  have ne: "[dated 2024 2 1 ''food'' 100] \<noteq> []" by simp
  show ?thesis
    using h k ne
      degenerate_inputs_raise_only_at_calendar_ends [of mid_february None _ constant_sample]
      degenerate_inputs_raise_only_at_calendar_ends
        [of mid_february None _ "[dated 2024 2 1 ''food'' 100]"]
      degenerate_inputs_raise_only_at_calendar_ends
        [of year_one_january None _ "[dated 2024 2 1 ''food'' 100]"]
    by blast
qed

end
